theory Spec2Isabelle
  imports Main
begin

section \<open>Characters and strings\<close>

text \<open>
  A Python \<open>str\<close> is modelled as a \<open>string\<close>, one \<open>char\<close> per code point; the model
  covers the code points below 256.  The character classes below are those of Python's
  \<open>re\<close> module and of \<open>str.lower\<close>, \<open>str.strip\<close> and \<open>repr\<close> on that range.
\<close>

definition code :: "char \<Rightarrow> nat" where
  "code c = of_char c"

definition is_digit :: "char \<Rightarrow> bool" where
  \<comment> \<open>\<open>\d\<close>\<close>
  "is_digit c = (48 \<le> code c \<and> code c \<le> 57)"

definition is_word :: "char \<Rightarrow> bool" where
  \<comment> \<open>\<open>\w\<close>: letters, digits, the underscore, and the alphanumerics above 127\<close>
  "is_word c =
     (let n = code c in
        (48 \<le> n \<and> n \<le> 57) \<or> (65 \<le> n \<and> n \<le> 90) \<or> n = 95 \<or> (97 \<le> n \<and> n \<le> 122)
        \<or> n = 170 \<or> n = 178 \<or> n = 179 \<or> n = 181 \<or> n = 185 \<or> n = 186
        \<or> (188 \<le> n \<and> n \<le> 190) \<or> (192 \<le> n \<and> n \<le> 214) \<or> (216 \<le> n \<and> n \<le> 246)
        \<or> 248 \<le> n)"

definition is_space :: "char \<Rightarrow> bool" where
  \<comment> \<open>what \<open>str.strip()\<close> removes\<close>
  "is_space c =
     (let n = code c in (9 \<le> n \<and> n \<le> 13) \<or> (28 \<le> n \<and> n \<le> 32) \<or> n = 133 \<or> n = 160)"

definition lower_char :: "char \<Rightarrow> char" where
  "lower_char c =
     (let n = code c in
        if (65 \<le> n \<and> n \<le> 90) \<or> (192 \<le> n \<and> n \<le> 214) \<or> (216 \<le> n \<and> n \<le> 222)
        then char_of (n + 32) else c)"

definition lower :: "string \<Rightarrow> string" where
  \<comment> \<open>\<open>s.lower()\<close>\<close>
  "lower s = map lower_char s"

definition strip :: "string \<Rightarrow> string" where
  \<comment> \<open>\<open>s.strip()\<close>\<close>
  "strip s = rev (dropWhile is_space (rev (dropWhile is_space s)))"

fun startswith :: "string \<Rightarrow> string \<Rightarrow> bool" where
  \<comment> \<open>\<open>s.startswith(p)\<close>, the prefix first\<close>
  "startswith [] s = True"
| "startswith (p # ps) [] = False"
| "startswith (p # ps) (c # cs) = (p = c \<and> startswith ps cs)"

definition endswith :: "string \<Rightarrow> string \<Rightarrow> bool" where
  \<comment> \<open>\<open>s.endswith(suffix)\<close>\<close>
  "endswith s suffix = startswith (rev suffix) (rev s)"

fun contains :: "string \<Rightarrow> string \<Rightarrow> bool" where
  \<comment> \<open>\<open>p in s\<close>\<close>
  "contains p [] = (p = [])"
| "contains p (c # cs) = (startswith p (c # cs) \<or> contains p cs)"

fun join :: "string \<Rightarrow> string list \<Rightarrow> string" where
  \<comment> \<open>\<open>sep.join(xs)\<close>\<close>
  "join sep [] = []"
| "join sep [x] = x"
| "join sep (x # y # ys) = x @ sep @ join sep (y # ys)"

function py_replace :: "string \<Rightarrow> string \<Rightarrow> string \<Rightarrow> string" where
  \<comment> \<open>\<open>s.replace(old, new)\<close>: every occurrence, leftmost first, none overlapping\<close>
  "py_replace old new [] = (if old = [] then new else [])"
| "py_replace old new (c # cs) =
     (if old = [] then new @ c # py_replace old new cs
      else if startswith old (c # cs)
        then new @ py_replace old new (drop (length old) (c # cs))
      else c # py_replace old new cs)"
  by pat_completeness auto
termination
  by (relation "measure (\<lambda>(old, new, s). length s)") auto

definition rfind :: "char \<Rightarrow> string \<Rightarrow> int" where
  \<comment> \<open>\<open>s.rfind(c)\<close>: the last index of \<open>c\<close>, or \<open>-1\<close>\<close>
  "rfind c s =
     (if c \<in> set s then int (length s) - 1 - int (length (takeWhile (\<lambda>x. x \<noteq> c) (rev s)))
      else - 1)"

function dec :: "nat \<Rightarrow> string" where
  \<comment> \<open>the decimal numeral of a natural number\<close>
  "dec n = (if n < 10 then [char_of (48 + n)] else dec (n div 10) @ [char_of (48 + n mod 10)])"
  by pat_completeness auto
termination
  by (relation "measure id") auto

declare dec.simps [simp del]

definition str_int :: "int \<Rightarrow> string" where
  \<comment> \<open>\<open>str(i)\<close> of an integer\<close>
  "str_int i = (if i < 0 then CHR ''-'' # dec (nat (- i)) else dec (nat i))"

section \<open>Python values\<close>

text \<open>
  What \<open>json.loads\<close> can return.  A dictionary is the list of its items in insertion
  order (its keys are strings); a float is kept as its \<open>repr\<close>, which is \<open>0.0\<close> or
  \<open>-0.0\<close> exactly when the float is zero.  JSON \<open>null\<close> is \<open>None\<close>, the value
  \<open>get_llm_metadata\<close> also returns when it has no result.
\<close>

datatype pyval =
    PNone
  | PBool bool
  | PInt int
  | PFloat string
  | PStr string
  | PList "pyval list"
  | PDict "(string \<times> pyval) list"

datatype exn = KeyError | AttributeError | TypeError | OSError | ServiceError

fun truthy :: "pyval \<Rightarrow> bool" where
  \<comment> \<open>the truth value Python's \<open>not\<close>, \<open>and\<close> and \<open>if\<close> test\<close>
  "truthy PNone = False"
| "truthy (PBool b) = b"
| "truthy (PInt i) = (i \<noteq> 0)"
| "truthy (PFloat r) = (r \<noteq> ''0.0'' \<and> r \<noteq> ''-0.0'')"
| "truthy (PStr s) = (s \<noteq> [])"
| "truthy (PList xs) = (xs \<noteq> [])"
| "truthy (PDict kvs) = (kvs \<noteq> [])"

definition dict_get :: "(string \<times> pyval) list \<Rightarrow> string \<Rightarrow> pyval \<Rightarrow> pyval" where
  \<comment> \<open>\<open>d.get(k, default)\<close>\<close>
  "dict_get kvs k dflt = (case map_of kvs k of None \<Rightarrow> dflt | Some v \<Rightarrow> v)"

definition subscript :: "pyval \<Rightarrow> string \<Rightarrow> exn + pyval" where
  \<comment> \<open>\<open>v[k]\<close> with a string key: only a dictionary has such items\<close>
  "subscript v k =
     (case v of
        PDict kvs \<Rightarrow> (case map_of kvs k of None \<Rightarrow> Inl KeyError | Some x \<Rightarrow> Inr x)
      | _ \<Rightarrow> Inl TypeError)"

definition slice4 :: "pyval \<Rightarrow> exn + pyval" where
  \<comment> \<open>\<open>v[:4]\<close>: strings and lists can be sliced; a dictionary has no such key\<close>
  "slice4 v =
     (case v of
        PStr s \<Rightarrow> Inr (PStr (take 4 s))
      | PList xs \<Rightarrow> Inr (PList (take 4 xs))
      | PDict kvs \<Rightarrow> Inl KeyError
      | _ \<Rightarrow> Inl TypeError)"

definition hexdigit :: "nat \<Rightarrow> char" where
  "hexdigit k = ''0123456789abcdef'' ! k"

definition escape_char :: "char \<Rightarrow> char \<Rightarrow> string" where
  \<comment> \<open>one character inside \<open>repr\<close> of a string quoted with \<open>q\<close>\<close>
  "escape_char q c =
     (let n = code c in
        if c = q \<or> n = 92 then [CHR 0x5C, c]
        else if n = 9 then [CHR 0x5C, CHR ''t'']
        else if n = 10 then [CHR 0x5C, CHR ''n'']
        else if n = 13 then [CHR 0x5C, CHR ''r'']
        else if n < 32 \<or> (127 \<le> n \<and> n \<le> 160) \<or> n = 173
          then [CHR 0x5C, CHR ''x'', hexdigit (n div 16), hexdigit (n mod 16)]
        else [c])"

definition repr_str :: "string \<Rightarrow> string" where
  \<comment> \<open>\<open>repr(s)\<close>: single quotes, unless the string has one and no double quote\<close>
  "repr_str s =
     (let q = (if CHR 0x27 \<in> set s \<and> CHR 0x22 \<notin> set s then CHR 0x22 else CHR 0x27)
      in [q] @ concat (map (escape_char q) s) @ [q])"

fun py_repr :: "pyval \<Rightarrow> string" where
  "py_repr PNone = ''None''"
| "py_repr (PBool b) = (if b then ''True'' else ''False'')"
| "py_repr (PInt i) = str_int i"
| "py_repr (PFloat r) = r"
| "py_repr (PStr s) = repr_str s"
| "py_repr (PList xs) = ''['' @ join '', '' (map py_repr xs) @ '']''"
| "py_repr (PDict kvs) =
     ''{'' @ join '', '' (map (\<lambda>(k, v). repr_str k @ '': '' @ py_repr v) kvs) @ ''}''"

definition py_str :: "pyval \<Rightarrow> string" where
  \<comment> \<open>\<open>str(v)\<close>, also what an f-string field formats\<close>
  "py_str v = (case v of PStr s \<Rightarrow> s | _ \<Rightarrow> py_repr v)"

section \<open>The Redactor\<close>

text \<open>
  The three patterns use only \<open>\b\<close>, \<open>\d\<close> and a literal hyphen, so a pattern is a
  list of such items.  \<open>re_match\<close> matches a pattern at the head of the text, given whether
  the character before it is a word character, and returns that flag for the end of the
  match together with the rest of the text.  \<open>re_sub\<close> is \<open>re.sub\<close>: it scans from the
  left, replaces each match and resumes behind it.
\<close>

datatype item = B | Dg | Lit char

fun next_word :: "string \<Rightarrow> bool" where
  "next_word [] = False"
| "next_word (c # cs) = is_word c"

fun re_match :: "item list \<Rightarrow> bool \<Rightarrow> string \<Rightarrow> (bool \<times> string) option" where
  "re_match [] pw s = Some (pw, s)"
| "re_match (B # r) pw s = (if pw \<noteq> next_word s then re_match r pw s else None)"
| "re_match (Dg # r) pw [] = None"
| "re_match (Dg # r) pw (c # cs) = (if is_digit c then re_match r (is_word c) cs else None)"
| "re_match (Lit x # r) pw [] = None"
| "re_match (Lit x # r) pw (c # cs) = (if c = x then re_match r (is_word c) cs else None)"

fun re_sub :: "item list \<Rightarrow> string \<Rightarrow> bool \<Rightarrow> string \<Rightarrow> string" where
  "re_sub pat repl pw [] = (case re_match pat pw [] of Some m \<Rightarrow> repl | None \<Rightarrow> [])"
| "re_sub pat repl pw (c # cs) =
     (case re_match pat pw (c # cs) of
        Some (pw', rest) \<Rightarrow>
          if length rest \<le> length cs then repl @ re_sub pat repl pw' rest
          else repl @ c # re_sub pat repl (is_word c) cs
      | None \<Rightarrow> c # re_sub pat repl (is_word c) cs)"

definition ssn_re :: "item list" where
  \<comment> \<open>\<^verbatim>\<open>\b\d{3}-\d{2}-\d{4}\b\<close>\<close>
  "ssn_re = [B] @ replicate 3 Dg @ [Lit CHR ''-''] @ replicate 2 Dg @ [Lit CHR ''-'']
     @ replicate 4 Dg @ [B]"

definition card_re :: "item list" where
  \<comment> \<open>\<^verbatim>\<open>\b\d{4}-\d{4}-\d{4}-\d{4}\b\<close>\<close>
  "card_re = [B] @ replicate 4 Dg @ [Lit CHR ''-''] @ replicate 4 Dg @ [Lit CHR ''-'']
     @ replicate 4 Dg @ [Lit CHR ''-''] @ replicate 4 Dg @ [B]"

definition account_re :: "item list" where
  \<comment> \<open>\<^verbatim>\<open>\b\d{9}\b\<close>\<close>
  "account_re = [B] @ replicate 9 Dg @ [B]"

definition redact_sensitive_info :: "string \<Rightarrow> string" where
  "redact_sensitive_info text =
     (let text = re_sub ssn_re ''[REDACTED SSN]'' False text;
          text = re_sub card_re ''[REDACTED CARD]'' False text;
          text = re_sub account_re ''[REDACTED ACCOUNT]'' False text
      in text)"

section \<open>Paths and unique file names\<close>

text \<open>
  A path is the list of the components handed to \<open>os.path.join\<close>, in order; joining
  more components appends them.  The file system is the list of the paths that exist.
  \<open>splitext\<close> is \<open>os.path.splitext\<close> with the separators of the platform the
  directories of the program belong to: the extension starts at the last dot of the last
  component, unless that component has only dots before it.
\<close>

type_synonym path = "string list"

definition os_path_join :: "path \<Rightarrow> string list \<Rightarrow> path" where
  "os_path_join a p = a @ p"

definition os_path_exists :: "path list \<Rightarrow> path \<Rightarrow> bool" where
  "os_path_exists existing p = (p \<in> set existing)"

definition splitext :: "string \<Rightarrow> string \<times> string" where
  "splitext p =
     (let sepIndex = max (rfind (CHR 0x5C) p) (rfind (CHR ''/'') p);
          dotIndex = rfind (CHR ''.'') p
      in if dotIndex > sepIndex
            \<and> list_ex (\<lambda>x. x \<noteq> CHR ''.'')
                 (take (nat (dotIndex - (sepIndex + 1))) (drop (nat (sepIndex + 1)) p))
         then (take (nat dotIndex) p, drop (nat dotIndex) p)
         else (p, []))"

text \<open>
  \<^verbatim>\<open>
  counter = 1
  new_filename = filename
  while os.path.exists(os.path.join(directory, new_filename)):
      new_filename = f"{base_name}-{counter}{ext}"
      counter += 1
  \<close>
  The loop ends because the candidates are pairwise different and only finitely many
  paths exist.
\<close>

function unique_loop ::
  "path list \<Rightarrow> path \<Rightarrow> string \<Rightarrow> string \<Rightarrow> string \<Rightarrow> nat \<Rightarrow> string" where
  "unique_loop existing directory base_name ext new_filename counter =
     (if os_path_exists existing (os_path_join directory [new_filename])
      then unique_loop existing directory base_name ext
             (base_name @ ''-'' @ dec counter @ ext) (counter + 1)
      else new_filename)"
  by pat_completeness auto
termination
proof (relation "measure (\<lambda>(existing, directory, base_name, ext, new_filename, counter).
          (if os_path_exists existing (os_path_join directory [new_filename]) then 1 else 0)
          + card {k. counter \<le> k \<and>
                os_path_exists existing
                  (os_path_join directory [base_name @ ''-'' @ dec k @ ext])})", goal_cases)
  case 1
  show ?case by simp
next
  case (2 existing directory base_name ext new_filename counter)
  have nonempty: "dec n \<noteq> []" for n
    by (subst dec.simps) simp
  have digit: "a = b" if "a < 10" "b < 10" "char_of (48 + a) = char_of (48 + b)" for a b :: nat
  proof -
    from that(3) have "(of_char (char_of (48 + a)) :: nat) = of_char (char_of (48 + b))"
      by simp
    with that(1,2) show ?thesis by (simp add: of_char_of)
  qed
  have inject: "dec n = dec m \<Longrightarrow> n = m" for n m
  proof (induction n arbitrary: m rule: dec.induct)
    case (1 n)
    show ?case
    proof (cases "n < 10")
      case small: True
      show ?thesis
      proof (cases "m < 10")
        case True
        with small "1.prems" show ?thesis
          by (simp add: dec.simps [of n] dec.simps [of m] digit)
      next
        case False
        with small "1.prems" nonempty [of "m div 10"] show ?thesis
          by (simp add: dec.simps [of n] dec.simps [of m] Cons_eq_append_conv)
      qed
    next
      case big: False
      show ?thesis
      proof (cases "m < 10")
        case True
        with big "1.prems" nonempty [of "n div 10"] show ?thesis
          by (simp add: dec.simps [of n] dec.simps [of m] append_eq_Cons_conv)
      next
        case False
        with big "1.prems" have eq: "dec (n div 10) = dec (m div 10)"
          and ch: "char_of (48 + n mod 10) = char_of (48 + m mod 10)"
          by (simp_all add: dec.simps [of n] dec.simps [of m])
        from "1.IH" [OF big eq] have "n div 10 = m div 10" .
        moreover from ch have "n mod 10 = m mod 10" by (intro digit) simp_all
        ultimately show ?thesis by (metis div_mult_mod_eq)
      qed
    qed
  qed
  let ?A = "\<lambda>c. {k. c \<le> k \<and>
                os_path_exists existing
                  (os_path_join directory [base_name @ ''-'' @ dec k @ ext])}"
  have "inj (\<lambda>k. directory @ [base_name @ ''-'' @ dec k @ ext])"
    by (rule injI) (simp add: inject)
  from finite_vimageI [OF finite_set this, of existing]
  have "finite {k. directory @ [base_name @ ''-'' @ dec k @ ext] \<in> set existing}"
    by (simp add: vimage_def)
  then have fin: "finite (?A c)" for c
    by (simp add: os_path_exists_def os_path_join_def)
  have split: "?A counter =
      (if os_path_exists existing (os_path_join directory [base_name @ ''-'' @ dec counter @ ext])
       then insert counter (?A (counter + 1)) else ?A (counter + 1))"
    by (auto simp: le_less Suc_le_eq)
  have notin: "counter \<notin> ?A (counter + 1)" by simp
  show ?case
  proof (cases "os_path_exists existing
      (os_path_join directory [base_name @ ''-'' @ dec counter @ ext])")
    case True
    with split have "card (?A counter) = Suc (card (?A (counter + 1)))"
      using card_insert_disjoint [OF fin [of "counter + 1"] notin] by simp
    with 2 True show ?thesis by simp
  next
    case False
    with split have "card (?A counter) = card (?A (counter + 1))" by simp
    with 2 False show ?thesis by simp
  qed
qed

declare unique_loop.simps [simp del]

definition get_unique_filename :: "path list \<Rightarrow> path \<Rightarrow> string \<Rightarrow> string" where
  "get_unique_filename existing directory filename =
     (let (base_name, ext) = splitext filename
      in unique_loop existing directory base_name ext filename 1)"

section \<open>The outside world\<close>

text \<open>
  What the libraries and services answer is given by a \<open>world\<close>: the prompt template of
  the configuration; the page texts \<open>pypdf\<close> reads (\<open>None\<close> for a page without text,
  \<open>Inl\<close> when reading raises); whether \<open>pypdfium2\<close> opens the document, and what
  rendering each page gives (an image by its width and height); the encoding of the
  stacked image; the answers of the vision and of the classification service (the
  latter to the first and to the second request of a document); the paths that exist
  when a unique name is looked for; and whether \<open>os.makedirs\<close> and \<open>shutil.move\<close>
  raise.

  Every function returns, next to its result, the calls it made on the outside, in order.
\<close>

type_synonym image = "nat \<times> nat"

record composite =
  total_width :: nat
  total_height :: nat
  pasted :: "(image \<times> nat) list"

datatype reply = Fault | NotJSON | Parsed pyval

record world =
  document_prompt :: string
  pypdf_pages :: "path \<Rightarrow> exn + string option list"
  pdfium_open :: "path \<Rightarrow> exn option"
  pdfium_render :: "path \<Rightarrow> (exn + image) list"
  encode_image :: "composite \<Rightarrow> exn + string"
  vision_service :: "string \<Rightarrow> exn + string"
  llm_service :: "nat \<Rightarrow> string \<Rightarrow> reply"
  existing :: "path list"
  makedirs :: "path \<Rightarrow> exn option"
  shutil_move :: "path \<Rightarrow> path \<Rightarrow> exn option"

datatype effect =
    NativeExtract path
  | VisionExtract path
  | PdfOpen path
  | PdfClose path
  | VisionRequest string
  | ClassifyRequest string
  | Makedirs path
  | Move path path

definition INPUT_DIR :: string where
  "INPUT_DIR = ''D:'' @ [CHR 0x5C] @ ''Documents'' @ [CHR 0x5C] @ ''Incoming''"

definition OUTPUT_DIR :: string where
  "OUTPUT_DIR = ''D:'' @ [CHR 0x5C] @ ''Documents'' @ [CHR 0x5C] @ ''Filed''"

section \<open>The extractors\<close>

definition extract_text_with_pypdf :: "world \<Rightarrow> path \<Rightarrow> string \<times> effect list" where
  "extract_text_with_pypdf w pdf_path =
     (case pypdf_pages w pdf_path of
        Inr pages \<Rightarrow>
          (strip (join [CHR 0x0A] (map (\<lambda>t. case t of None \<Rightarrow> [] | Some x \<Rightarrow> x) pages)),
           [NativeExtract pdf_path])
      | Inl e \<Rightarrow> ([], [NativeExtract pdf_path]))"

fun render_pages :: "(exn + image) list \<Rightarrow> exn + image list" where
  \<comment> \<open>the list comprehension over the pages: the first page that raises ends it\<close>
  "render_pages [] = Inr []"
| "render_pages (Inl e # ps) = Inl e"
| "render_pages (Inr img # ps) =
     (case render_pages ps of Inl e \<Rightarrow> Inl e | Inr imgs \<Rightarrow> Inr (img # imgs))"

fun paste_all :: "image list \<Rightarrow> nat \<Rightarrow> (image \<times> nat) list" where
  "paste_all [] y_offset = []"
| "paste_all (img # imgs) y_offset = (img, y_offset) # paste_all imgs (y_offset + snd img)"

definition stack_images :: "image list \<Rightarrow> composite" where
  "stack_images images =
     \<lparr>total_width = Max (set (map fst images)),
      total_height = sum_list (map snd images),
      pasted = paste_all images 0\<rparr>"

text \<open>
  \<^verbatim>\<open>
  try:
      pdf = pypdfium2.PdfDocument(pdf_path)
      images = [page.render(scale=2.0).to_pil() for page in pdf]
      pdf.close()
      if not images: return ""
      ...
      return extracted_text
  except Exception as e:
      return ""
  \<close>
\<close>

definition extract_text_with_gpt4_vision :: "world \<Rightarrow> path \<Rightarrow> string \<times> effect list" where
  "extract_text_with_gpt4_vision w pdf_path =
     (case pdfium_open w pdf_path of
        Some e \<Rightarrow> ([], [VisionExtract pdf_path])
      | None \<Rightarrow>
          (case render_pages (pdfium_render w pdf_path) of
             Inl e \<Rightarrow> ([], [VisionExtract pdf_path, PdfOpen pdf_path])
           | Inr images \<Rightarrow>
               if images = []
               then ([], [VisionExtract pdf_path, PdfOpen pdf_path, PdfClose pdf_path])
               else
                 (case encode_image w (stack_images images) of
                    Inl e \<Rightarrow> ([], [VisionExtract pdf_path, PdfOpen pdf_path, PdfClose pdf_path])
                  | Inr encoded_image \<Rightarrow>
                      (case vision_service w encoded_image of
                         Inl e \<Rightarrow>
                           ([], [VisionExtract pdf_path, PdfOpen pdf_path, PdfClose pdf_path,
                                 VisionRequest encoded_image])
                       | Inr content \<Rightarrow>
                           (strip content,
                            [VisionExtract pdf_path, PdfOpen pdf_path, PdfClose pdf_path,
                             VisionRequest encoded_image])))))"

section \<open>The classifier\<close>

definition get_llm_metadata ::
  "string \<Rightarrow> (string \<Rightarrow> reply) \<Rightarrow> string \<Rightarrow> pyval \<times> effect list" where
  "get_llm_metadata DOCUMENT_PROMPT service text =
     (let prompt = py_replace ''{PDF_TEXT}'' (take 3000 text) DOCUMENT_PROMPT
      in case service prompt of
           Parsed result \<Rightarrow> (result, [ClassifyRequest prompt])
         | NotJSON \<Rightarrow> (PNone, [ClassifyRequest prompt])
         | Fault \<Rightarrow> (PNone, [ClassifyRequest prompt]))"

text \<open>
  \<^verbatim>\<open>return ai_response.get("category", "").lower() == "unreadable"\<close>
  Only a dictionary has \<open>get\<close> and only a string has \<open>lower\<close>: anything else raises
  \<open>AttributeError\<close>.
\<close>

definition is_unreadable :: "pyval \<Rightarrow> exn + bool" where
  "is_unreadable ai_response =
     (case ai_response of
        PDict kvs \<Rightarrow>
          (case dict_get kvs ''category'' (PStr '''') of
             PStr c \<Rightarrow> Inr (lower c = ''unreadable'')
           | _ \<Rightarrow> Inl AttributeError)
      | _ \<Rightarrow> Inl AttributeError)"

section \<open>The filing engine\<close>

text \<open>
  \<open>year_dir\<close> is the first half of \<open>move_pdf\<close>, up to the directory it computes:
  \<^verbatim>\<open>
  category = ai_response["category"]
  date = ai_response["date"]
  new_filename = ai_response["filename"]
  year = date[:4] if date and date != "unknown" else "Unkn"
  year_dir = os.path.join(OUTPUT_DIR, year, f"{year} - {category}")
  \<close>
  A missing key raises \<open>KeyError\<close>; a year that is not a string makes
  \<open>os.path.join\<close> raise \<open>TypeError\<close>.
\<close>

definition year_dir :: "pyval \<Rightarrow> exn + path" where
  "year_dir ai_response =
     (case subscript ai_response ''category'' of
        Inl e \<Rightarrow> Inl e
      | Inr category \<Rightarrow>
     (case subscript ai_response ''date'' of
        Inl e \<Rightarrow> Inl e
      | Inr date \<Rightarrow>
     (case subscript ai_response ''filename'' of
        Inl e \<Rightarrow> Inl e
      | Inr new_filename \<Rightarrow>
     (case (if truthy date \<and> date \<noteq> PStr ''unknown'' then slice4 date
            else Inr (PStr ''Unkn'')) of
        Inl e \<Rightarrow> Inl e
      | Inr (PStr year) \<Rightarrow>
          Inr (os_path_join [OUTPUT_DIR] [year, year @ '' - '' @ py_str category])
      | Inr _ \<Rightarrow> Inl TypeError))))"

definition move_pdf :: "world \<Rightarrow> path \<Rightarrow> pyval \<Rightarrow> (exn + path) \<times> effect list" where
  "move_pdf w file_path ai_response =
     (case year_dir ai_response of
        Inl e \<Rightarrow> (Inl e, [])
      | Inr yd \<Rightarrow>
          (case makedirs w yd of
             Some e \<Rightarrow> (Inl e, [Makedirs yd])
           | None \<Rightarrow>
               (case subscript ai_response ''filename'' of
                  Inr (PStr new_filename) \<Rightarrow>
                    (let unique_filename = get_unique_filename (existing w) yd new_filename;
                         new_file_path = os_path_join yd [unique_filename]
                     in case shutil_move w file_path new_file_path of
                          Some e \<Rightarrow> (Inl e, [Makedirs yd, Move file_path new_file_path])
                        | None \<Rightarrow>
                            (Inr new_file_path, [Makedirs yd, Move file_path new_file_path]))
                | _ \<Rightarrow> (Inl TypeError, [Makedirs yd]))))"

section \<open>The orchestrator\<close>

text \<open>
  The four ways \<open>process_pdf\<close> ends, one per message it prints: skipped after a
  classification without result, skipped as unreadable, moved, and the error caught by
  its \<open>except Exception\<close>.
\<close>

datatype outcome = SkippedLLMError | SkippedUnreadable | Filed path | Failed exn

definition process_pdf :: "world \<Rightarrow> path \<Rightarrow> outcome \<times> effect list" where
  "process_pdf w filename =
     (let (text, ev1) = extract_text_with_pypdf w filename;
          (ai_response, ev2) = get_llm_metadata (document_prompt w) (llm_service w 0) text
      in if \<not> truthy ai_response then (SkippedLLMError, ev1 @ ev2)
         else
           let (ai_response, ev3) =
                 (if contains ''unknown'' (lower (py_str ai_response))
                     \<or> contains ''unidentified'' (lower (py_str ai_response))
                  then
                    let (text, eva) = extract_text_with_gpt4_vision w filename;
                        (ai_response, evb) =
                          get_llm_metadata (document_prompt w) (llm_service w 1) text
                    in (ai_response, eva @ evb)
                  else (ai_response, []))
           in case is_unreadable ai_response of
                Inl e \<Rightarrow> (Failed e, ev1 @ ev2 @ ev3)
              | Inr True \<Rightarrow> (SkippedUnreadable, ev1 @ ev2 @ ev3)
              | Inr False \<Rightarrow>
                  (case move_pdf w filename ai_response of
                     (Inl e, ev4) \<Rightarrow> (Failed e, ev1 @ ev2 @ ev3 @ ev4)
                   | (Inr new_file_path, ev4) \<Rightarrow>
                       (Filed new_file_path, ev1 @ ev2 @ ev3 @ ev4)))"

text \<open>
  The batch: the directory listing in order, each \<open>.pdf\<close> entry processed in the world
  it meets.
\<close>

fun process_pdfs ::
  "(string \<Rightarrow> world) \<Rightarrow> string list \<Rightarrow> (string \<times> outcome \<times> effect list) list" where
  "process_pdfs worlds [] = []"
| "process_pdfs worlds (filename # rest) =
     (if endswith (lower filename) ''.pdf''
      then (filename, process_pdf (worlds filename) (os_path_join [INPUT_DIR] [filename]))
             # process_pdfs worlds rest
      else process_pdfs worlds rest)"

section \<open>Notions used in the proofs\<close>

text \<open>
  Each pattern is \<open>\b\<close>, a core of digits and hyphens that starts and ends with a
  digit, and \<open>\b\<close>.  Such a pattern hits a text when no word character precedes, the
  core matches the head of the text, and no word character follows.
\<close>

fun item_ok :: "item \<Rightarrow> char \<Rightarrow> bool" where
  "item_ok B c = False"
| "item_ok Dg c = is_digit c"
| "item_ok (Lit x) c = (c = x)"

definition dh :: "char \<Rightarrow> bool" where
  "dh c = (is_digit c \<or> c = CHR ''-'')"

definition core_ok :: "item list \<Rightarrow> bool" where
  "core_ok core =
     (core \<noteq> [] \<and> hd core = Dg \<and> last core = Dg \<and> set core \<subseteq> {Dg, Lit CHR ''-''})"

definition ctx_after :: "bool \<Rightarrow> string \<Rightarrow> bool" where
  "ctx_after pw m = (if m = [] then pw else is_word (last m))"

definition cmatch :: "item list \<Rightarrow> string \<Rightarrow> bool" where
  "cmatch core s =
     (length core \<le> length s \<and> list_all2 item_ok core (take (length core) s))"

definition hit :: "item list \<Rightarrow> bool \<Rightarrow> string \<Rightarrow> bool" where
  "hit core pw s = (\<not> pw \<and> cmatch core s \<and> \<not> next_word (drop (length core) s))"

definition tok_ok :: "string \<Rightarrow> bool" where
  "tok_ok tok = (tok \<noteq> [] \<and> (\<forall>x\<in>set tok. \<not> dh x) \<and> \<not> is_word (last tok))"

fun nomatch :: "item list \<Rightarrow> bool \<Rightarrow> string \<Rightarrow> bool" where
  "nomatch p pw [] = (re_match p pw [] = None)"
| "nomatch p pw (c # cs) = (re_match p pw (c # cs) = None \<and> nomatch p (is_word c) cs)"

section \<open>An example world\<close>

text \<open>
  The world the examples start from: the template is the placeholder alone, no page has
  text, every library call succeeds, the services do not answer, and no path exists.
\<close>

definition quiet_world :: world where
  "quiet_world =
     \<lparr>document_prompt = ''{PDF_TEXT}'', pypdf_pages = (\<lambda>p. Inr []),
      pdfium_open = (\<lambda>p. None), pdfium_render = (\<lambda>p. []),
      encode_image = (\<lambda>c. Inr ''png''), vision_service = (\<lambda>s. Inl ServiceError),
      llm_service = (\<lambda>n p. Fault), existing = [],
      makedirs = (\<lambda>p. None), shutil_move = (\<lambda>p q. None)\<rparr>"

section \<open>The Redactor leaves nothing to redact\<close>

lemma is_digit_word: "is_digit c \<Longrightarrow> is_word c"
  by (simp add: is_digit_def is_word_def Let_def)

lemma ctx_after_Cons: "ctx_after pw (c # m) = ctx_after (is_word c) m"
  by (simp add: ctx_after_def)

lemma re_match_core:
  "B \<notin> set core \<Longrightarrow>
   re_match (core @ [B]) pw s =
     (if cmatch core s
         \<and> ctx_after pw (take (length core) s) \<noteq> next_word (drop (length core) s)
      then Some (ctx_after pw (take (length core) s), drop (length core) s)
      else None)"
proof (induction core arbitrary: pw s)
  case Nil
  show ?case by (simp add: cmatch_def ctx_after_def)
next
  case (Cons i core)
  then have nb: "B \<notin> set core" and i: "i \<noteq> B" by auto
  show ?case
  proof (cases s)
    case Nil
    with i show ?thesis by (cases i) (simp_all add: cmatch_def)
  next
    case (Cons c cs)
    show ?thesis
    proof (cases i)
      case B
      with i show ?thesis by simp
    next
      case Dg
      then show ?thesis
        using Cons.IH [OF nb, of "is_word c" cs]
        by (simp add: Cons cmatch_def ctx_after_Cons)
    next
      case (Lit x)
      show ?thesis
      proof (cases "c = x")
        case True
        then show ?thesis
          using Cons.IH [OF nb, of "is_word c" cs] Lit
          by (simp add: Cons cmatch_def ctx_after_Cons)
      next
        case False
        then show ?thesis using Lit by (simp add: Cons cmatch_def)
      qed
    qed
  qed
qed

lemma list_all2_hd:
  "list_all2 P xs ys \<Longrightarrow> xs \<noteq> [] \<Longrightarrow> P (hd xs) (hd ys) \<and> ys \<noteq> []"
  by (cases xs; cases ys) simp_all

lemma list_all2_last:
  "list_all2 P xs ys \<Longrightarrow> xs \<noteq> [] \<Longrightarrow> P (last xs) (last ys)"
  by (induction rule: list_all2_induct) (auto simp: list_all2_Nil)

lemma cmatch_facts:
  assumes "core_ok core" and "cmatch core s"
  shows "s \<noteq> []" and "is_digit (hd s)" and "take (length core) s \<noteq> []"
    and "is_digit (last (take (length core) s))" and "\<forall>x\<in>set (take (length core) s). dh x"
    and "0 < length core" and "length core \<le> length s"
proof -
  from assms have ne: "core \<noteq> []" and h: "hd core = Dg" and l: "last core = Dg"
    and sub: "set core \<subseteq> {Dg, Lit CHR ''-''}"
    and len: "length core \<le> length s"
    and all: "list_all2 item_ok core (take (length core) s)"
    by (simp_all add: core_ok_def cmatch_def)
  from ne len show "s \<noteq> []" by auto
  from list_all2_hd [OF all ne] h ne show "is_digit (hd s)" by (cases s) auto
  from ne show "0 < length core" by simp
  from len show "length core \<le> length s" .
  show "take (length core) s \<noteq> []" using ne len by auto
  show "is_digit (last (take (length core) s))"
    using list_all2_last [OF all ne] l by simp
  show "\<forall>x\<in>set (take (length core) s). dh x"
  proof
    fix x assume "x \<in> set (take (length core) s)"
    then obtain k where k: "k < length (take (length core) s)" and x: "x = take (length core) s ! k"
      by (auto simp: in_set_conv_nth)
    from all k have "item_ok (core ! k) x" unfolding x by (auto simp: list_all2_conv_all_nth)
    moreover have "k < length core" using k all by (auto simp: list_all2_conv_all_nth)
    then have "core ! k \<in> {Dg, Lit CHR ''-''}" using sub nth_mem by blast
    ultimately show "dh x" by (auto simp: dh_def)
  qed
qed

lemma re_match_pat:
  assumes "core_ok core"
  shows "re_match (B # core @ [B]) pw s =
           (if hit core pw s then Some (True, drop (length core) s) else None)"
proof -
  from assms have nb: "B \<notin> set core" by (auto simp: core_ok_def)
  show ?thesis
  proof (cases "cmatch core s")
    case False
    then show ?thesis by (simp add: re_match_core [OF nb] hit_def)
  next
    case True
    note f = cmatch_facts [OF assms True]
    from f(1,2) have nw: "next_word s" by (cases s) (auto simp: is_digit_word)
    from f(3,4) have w2: "ctx_after b (take (length core) s)" for b
      by (simp add: ctx_after_def is_digit_word)
    show ?thesis using True nw w2 by (auto simp: re_match_core [OF nb] hit_def)
  qed
qed

lemma re_sub_pat_Nil:
  assumes "core_ok core"
  shows "re_sub (B # core @ [B]) tok pw [] = []"
proof -
  have "\<not> hit core pw []" using assms by (simp add: hit_def cmatch_def core_ok_def)
  then show ?thesis by (simp add: re_match_pat [OF assms] del: re_match.simps)
qed

lemma re_sub_pat_Cons:
  assumes "core_ok core"
  shows "re_sub (B # core @ [B]) tok pw (c # cs) =
           (if hit core pw (c # cs)
            then tok @ re_sub (B # core @ [B]) tok True (drop (length core) (c # cs))
            else c # re_sub (B # core @ [B]) tok (is_word c) cs)"
proof (cases "hit core pw (c # cs)")
  case False
  then show ?thesis by (simp add: re_match_pat [OF assms] del: re_match.simps)
next
  case True
  then have "cmatch core (c # cs)" by (simp add: hit_def)
  from cmatch_facts(6) [OF assms this]
  have "length (drop (length core) (c # cs)) \<le> length cs" by (cases core) simp_all
  with True show ?thesis by (simp add: re_match_pat [OF assms] del: re_match.simps)
qed

lemma nomatch_re_sub: "nomatch p pw s \<Longrightarrow> re_sub p tok pw s = s"
  by (induction s arbitrary: pw) simp_all

lemma hit_prefix_len:
  assumes "core_ok cq" and "hit cq pw0 (w @ y)" and "y \<noteq> []" and "\<not> dh (hd y)"
  shows "length cq \<le> length w"
proof (rule ccontr)
  assume "\<not> length cq \<le> length w"
  then have "hd y \<in> set (take (length cq) (w @ y))"
    using \<open>y \<noteq> []\<close> by (cases y) (auto simp: take_Cons')
  moreover from assms have "cmatch cq (w @ y)" by (simp add: hit_def)
  ultimately show False using cmatch_facts(5) [OF assms(1)] assms(4) by blast
qed

lemma hit_local:
  assumes "length cq \<le> length w" and "length cq < length w \<or> next_word y = next_word y'"
  shows "hit cq pw0 (w @ y) = hit cq pw0 (w @ y')"
proof -
  have "next_word (drop (length cq) w @ y) = next_word (drop (length cq) w @ y')"
    using assms by (cases "drop (length cq) w") auto
  then show ?thesis using assms(1) by (simp add: hit_def cmatch_def)
qed

lemma hit_full:
  assumes "core_ok cq" and "hit cq pw0 (w @ y)" and "length cq = length w"
  shows "w \<noteq> []" and "is_digit (last w)"
proof -
  from assms have c: "cmatch cq (w @ y)" by (simp add: hit_def)
  from cmatch_facts(3,4) [OF assms(1) c] assms(3) show "w \<noteq> []" and "is_digit (last w)"
    by simp_all
qed

lemma head_stable:
  assumes cp: "core_ok cp" and cq: "core_ok cq" and tok: "tok_ok tok"
  shows "\<forall>x\<in>set u. dh x \<Longrightarrow> pw = ctx_after pw0 u \<Longrightarrow> \<not> hit cq pw0 (u @ s) \<Longrightarrow>
         \<not> hit cq pw0 (u @ re_sub (B # cp @ [B]) tok pw s)"
proof (induction "length s" arbitrary: s u pw rule: less_induct)
  case less
  show ?case
  proof (cases s)
    case Nil
    with less.prems show ?thesis by (simp add: re_sub_pat_Nil [OF cp] del: re_match.simps re_sub.simps nomatch.simps)
  next
    case (Cons c cs)
    show ?thesis
    proof (cases "hit cp pw s")
      case True
      define X where "X = re_sub (B # cp @ [B]) tok True (drop (length cp) s)"
      from True have out: "re_sub (B # cp @ [B]) tok pw s = tok @ X"
        by (simp add: Cons re_sub_pat_Cons [OF cp] X_def del: re_match.simps re_sub.simps nomatch.simps)
      from True have npw: "\<not> pw" by (simp add: hit_def)
      from tok have t: "tok @ X \<noteq> []" "\<not> dh (hd (tok @ X))"
        by (auto simp: tok_ok_def)
      show ?thesis
      proof
        assume h: "hit cq pw0 (u @ re_sub (B # cp @ [B]) tok pw s)"
        then have h': "hit cq pw0 (u @ tok @ X)" by (simp add: out)
        from hit_prefix_len [OF cq h' t] have le: "length cq \<le> length u" .
        show False
        proof (cases "length cq < length u")
          case True
          from hit_local [OF le, of "tok @ X" s pw0] True h' less.prems(3)
          show False by simp
        next
          case False
          with le have "length cq = length u" by simp
          from hit_full [OF cq h' this] have "u \<noteq> []" "is_digit (last u)" .
          then have "ctx_after pw0 u" by (simp add: ctx_after_def is_digit_word)
          with less.prems(2) npw show False by simp
        qed
      qed
    next
      case False
      define X where "X = re_sub (B # cp @ [B]) tok (is_word c) cs"
      from False have out: "re_sub (B # cp @ [B]) tok pw s = c # X"
        by (simp add: Cons re_sub_pat_Cons [OF cp] X_def del: re_match.simps re_sub.simps nomatch.simps)
      show ?thesis
      proof (cases "dh c")
        case True
        have "\<not> hit cq pw0 ((u @ [c]) @ re_sub (B # cp @ [B]) tok (is_word c) cs)"
        proof (rule less.hyps)
          show "length cs < length s" by (simp add: Cons)
          show "\<forall>x\<in>set (u @ [c]). dh x" using less.prems(1) True by simp
          show "is_word c = ctx_after pw0 (u @ [c])" by (simp add: ctx_after_def)
          show "\<not> hit cq pw0 ((u @ [c]) @ cs)" using less.prems(3) by (simp add: Cons)
        qed
        then show ?thesis by (simp add: out X_def del: re_match.simps re_sub.simps nomatch.simps)
      next
        case ndh: False
        show ?thesis
        proof
          assume "hit cq pw0 (u @ re_sub (B # cp @ [B]) tok pw s)"
          then have h': "hit cq pw0 (u @ c # X)" by (simp add: out)
          from hit_prefix_len [OF cq h'] ndh have le: "length cq \<le> length u" by simp
          from hit_local [OF le, of "c # X" "c # cs" pw0] h' less.prems(3)
          show False by (simp add: Cons del: re_match.simps re_sub.simps nomatch.simps)
        qed
      qed
    qed
  qed
qed

lemma nomatch_pat_Nil: "core_ok cq \<Longrightarrow> nomatch (B # cq @ [B]) pw []"
  by (simp add: re_match_pat hit_def cmatch_def core_ok_def del: re_match.simps)

lemma nomatch_pat_Cons:
  "core_ok cq \<Longrightarrow>
   nomatch (B # cq @ [B]) pw (c # cs) = (\<not> hit cq pw (c # cs) \<and> nomatch (B # cq @ [B]) (is_word c) cs)"
  by (simp add: re_match_pat del: re_match.simps)

lemma hit_needs_digit: "core_ok cq \<Longrightarrow> hit cq pw (c # cs) \<Longrightarrow> is_digit c"
  using cmatch_facts(2) [of cq "c # cs"] by (simp add: hit_def)

lemma nomatch_tok:
  assumes cq: "core_ok cq"
  shows "\<forall>x\<in>set t. \<not> is_digit x \<Longrightarrow>
         nomatch (B # cq @ [B]) pw (t @ X) = nomatch (B # cq @ [B]) (ctx_after pw t) X"
proof (induction t arbitrary: pw)
  case Nil
  show ?case by (simp add: ctx_after_def del: re_match.simps re_sub.simps nomatch.simps)
next
  case (Cons c t)
  then have "\<not> hit cq pw (c # t @ X)" using hit_needs_digit [OF cq] by auto
  with Cons show ?case by (simp add: nomatch_pat_Cons [OF cq] ctx_after_Cons del: re_match.simps re_sub.simps nomatch.simps)
qed

lemma nomatch_drop:
  assumes cq: "core_ok cq"
  shows "nomatch (B # cq @ [B]) pw s \<Longrightarrow>
         nomatch (B # cq @ [B]) (ctx_after pw (take k s)) (drop k s)"
proof (induction s arbitrary: pw k)
  case Nil
  then show ?case by (simp add: nomatch_pat_Nil [OF cq] del: re_match.simps re_sub.simps nomatch.simps)
next
  case (Cons c cs)
  show ?case
  proof (cases k)
    case 0
    with Cons.prems show ?thesis by (simp add: ctx_after_def del: re_match.simps re_sub.simps nomatch.simps)
  next
    case (Suc j)
    from Cons.prems have "nomatch (B # cq @ [B]) (is_word c) cs"
      by (simp add: nomatch_pat_Cons [OF cq] del: re_match.simps re_sub.simps nomatch.simps)
    from Cons.IH [OF this, of j] show ?thesis by (simp add: Suc ctx_after_Cons del: re_match.simps re_sub.simps nomatch.simps)
  qed
qed

lemma no_fresh_match:
  assumes cp: "core_ok cp" and cq: "core_ok cq" and tok: "tok_ok tok"
  shows "cq = cp \<or> nomatch (B # cq @ [B]) pw s \<Longrightarrow>
         pwo = pw \<or> \<not> (s \<noteq> [] \<and> is_digit (hd s)) \<Longrightarrow>
         nomatch (B # cq @ [B]) pwo (re_sub (B # cp @ [B]) tok pw s)"
proof (induction "length s" arbitrary: s pw pwo rule: less_induct)
  case less
  show ?case
  proof (cases s)
    case Nil
    then show ?thesis by (simp add: re_sub_pat_Nil [OF cp] nomatch_pat_Nil [OF cq] del: re_match.simps re_sub.simps nomatch.simps)
  next
    case (Cons c cs)
    show ?thesis
    proof (cases "hit cp pw s")
      case True
      then have cm: "cmatch cp s" and npw: "\<not> pw"
        and nnw: "\<not> next_word (drop (length cp) s)" by (simp_all add: hit_def)
      note f = cmatch_facts [OF cp cm]
      let ?rest = "drop (length cp) s"
      from True have out: "re_sub (B # cp @ [B]) tok pw s
          = tok @ re_sub (B # cp @ [B]) tok True ?rest"
        by (simp add: Cons re_sub_pat_Cons [OF cp] del: re_match.simps re_sub.simps nomatch.simps)
      have ctx: "ctx_after pw (take (length cp) s) = True"
        using f(3,4) by (simp add: ctx_after_def is_digit_word)
      have "nomatch (B # cq @ [B]) False (re_sub (B # cp @ [B]) tok True ?rest)"
      proof (rule less.hyps)
        show "length ?rest < length s" using f(1,6) by simp
        show "cq = cp \<or> nomatch (B # cq @ [B]) True ?rest"
          using less.prems(1) nomatch_drop [OF cq, of pw s "length cp"] ctx by auto
        show "False = True \<or> \<not> (?rest \<noteq> [] \<and> is_digit (hd ?rest))"
          using nnw by (cases ?rest) (auto simp: is_digit_word)
      qed
      moreover have "\<forall>x\<in>set tok. \<not> is_digit x" "ctx_after pwo tok = False"
        using tok by (auto simp: tok_ok_def dh_def ctx_after_def)
      ultimately show ?thesis by (simp add: out nomatch_tok [OF cq] del: re_match.simps re_sub.simps nomatch.simps)
    next
      case False
      let ?X = "re_sub (B # cp @ [B]) tok (is_word c) cs"
      from False have out: "re_sub (B # cp @ [B]) tok pw s = c # ?X"
        by (simp add: Cons re_sub_pat_Cons [OF cp] del: re_match.simps re_sub.simps nomatch.simps)
      have nq: "\<not> hit cq pw s"
        using less.prems(1) False by (auto simp: Cons nomatch_pat_Cons [OF cq] simp del: re_match.simps re_sub.simps nomatch.simps)
      have tl: "nomatch (B # cq @ [B]) (is_word c) ?X"
      proof (rule less.hyps)
        show "length cs < length s" by (simp add: Cons)
        show "cq = cp \<or> nomatch (B # cq @ [B]) (is_word c) cs"
          using less.prems(1) by (auto simp: Cons nomatch_pat_Cons [OF cq] simp del: re_match.simps re_sub.simps nomatch.simps)
        show "is_word c = is_word c \<or> \<not> (cs \<noteq> [] \<and> is_digit (hd cs))" by simp
      qed
      have hd: "\<not> hit cq pwo (c # ?X)"
      proof (cases "pwo = pw")
        case True
        from head_stable [OF cp cq tok, of "[]" pw pw s] nq
        show ?thesis by (simp add: ctx_after_def out True del: re_match.simps re_sub.simps nomatch.simps)
      next
        case False
        with less.prems(2) have "\<not> is_digit c" by (simp add: Cons)
        then show ?thesis using hit_needs_digit [OF cq] by blast
      qed
      from hd tl show ?thesis by (simp add: out nomatch_pat_Cons [OF cq] del: re_match.simps re_sub.simps nomatch.simps)
    qed
  qed
qed

lemma three_passes_idem:
  assumes c1: "core_ok c1" and c2: "core_ok c2" and c3: "core_ok c3"
    and t1: "tok_ok t1" and t2: "tok_ok t2" and t3: "tok_ok t3"
  defines "R \<equiv> \<lambda>s. re_sub (B # c3 @ [B]) t3 False
                  (re_sub (B # c2 @ [B]) t2 False (re_sub (B # c1 @ [B]) t1 False s))"
  shows "R (R s) = R s"
proof -
  let ?s1 = "re_sub (B # c1 @ [B]) t1 False s"
  let ?s2 = "re_sub (B # c2 @ [B]) t2 False ?s1"
  let ?s3 = "re_sub (B # c3 @ [B]) t3 False ?s2"
  have a1: "nomatch (B # c1 @ [B]) False ?s1"
    by (rule no_fresh_match [OF c1 c1 t1]) simp_all
  have a2: "nomatch (B # c1 @ [B]) False ?s2"
    by (rule no_fresh_match [OF c2 c1 t2]) (simp_all add: a1)
  have a3: "nomatch (B # c1 @ [B]) False ?s3"
    by (rule no_fresh_match [OF c3 c1 t3]) (simp_all add: a2)
  have b2: "nomatch (B # c2 @ [B]) False ?s2"
    by (rule no_fresh_match [OF c2 c2 t2]) simp_all
  have b3: "nomatch (B # c2 @ [B]) False ?s3"
    by (rule no_fresh_match [OF c3 c2 t3]) (simp_all add: b2)
  have d3: "nomatch (B # c3 @ [B]) False ?s3"
    by (rule no_fresh_match [OF c3 c3 t3]) simp_all
  show ?thesis
    unfolding R_def by (simp add: nomatch_re_sub [OF a3] nomatch_re_sub [OF b3] nomatch_re_sub [OF d3])
qed

text \<open>
  C8.  The Redactor is idempotent: redacting a redacted text changes nothing.  In
  particular none of the three patterns matches anywhere in a redaction token, whatever
  the replacement.
\<close>

theorem redact_idempotent:
  "redact_sensitive_info (redact_sensitive_info s) = redact_sensitive_info s
   \<and> re_sub ssn_re r False ''[REDACTED SSN]'' = ''[REDACTED SSN]''
   \<and> re_sub card_re r False ''[REDACTED SSN]'' = ''[REDACTED SSN]''
   \<and> re_sub account_re r False ''[REDACTED SSN]'' = ''[REDACTED SSN]''
   \<and> re_sub ssn_re r False ''[REDACTED CARD]'' = ''[REDACTED CARD]''
   \<and> re_sub card_re r False ''[REDACTED CARD]'' = ''[REDACTED CARD]''
   \<and> re_sub account_re r False ''[REDACTED CARD]'' = ''[REDACTED CARD]''
   \<and> re_sub ssn_re r False ''[REDACTED ACCOUNT]'' = ''[REDACTED ACCOUNT]''
   \<and> re_sub card_re r False ''[REDACTED ACCOUNT]'' = ''[REDACTED ACCOUNT]''
   \<and> re_sub account_re r False ''[REDACTED ACCOUNT]'' = ''[REDACTED ACCOUNT]''"
proof -
  have c1: "core_ok [Dg, Dg, Dg, Lit CHR ''-'', Dg, Dg, Lit CHR ''-'', Dg, Dg, Dg, Dg]"
    and c2: "core_ok [Dg, Dg, Dg, Dg, Lit CHR ''-'', Dg, Dg, Dg, Dg, Lit CHR ''-'',
                      Dg, Dg, Dg, Dg, Lit CHR ''-'', Dg, Dg, Dg, Dg]"
    and c3: "core_ok [Dg, Dg, Dg, Dg, Dg, Dg, Dg, Dg, Dg]"
    by (simp_all add: core_ok_def)
  have t1: "tok_ok ''[REDACTED SSN]''" and t2: "tok_ok ''[REDACTED CARD]''"
    and t3: "tok_ok ''[REDACTED ACCOUNT]''"
    by (simp_all add: tok_ok_def dh_def is_digit_def is_word_def code_def)
  have p1: "ssn_re = B # [Dg, Dg, Dg, Lit CHR ''-'', Dg, Dg, Lit CHR ''-'', Dg, Dg, Dg, Dg] @ [B]"
    and p2: "card_re = B # [Dg, Dg, Dg, Dg, Lit CHR ''-'', Dg, Dg, Dg, Dg, Lit CHR ''-'',
                      Dg, Dg, Dg, Dg, Lit CHR ''-'', Dg, Dg, Dg, Dg] @ [B]"
    and p3: "account_re = B # [Dg, Dg, Dg, Dg, Dg, Dg, Dg, Dg, Dg] @ [B]"
    by (simp_all add: ssn_re_def card_re_def account_re_def numeral_eq_Suc)
  have idem: "redact_sensitive_info (redact_sensitive_info s) = redact_sensitive_info s"
    unfolding redact_sensitive_info_def Let_def p1 p2 p3
    by (rule three_passes_idem [OF c1 c2 c3 t1 t2 t3])
  have n: "nomatch ssn_re False ''[REDACTED SSN]''"
    "nomatch card_re False ''[REDACTED SSN]''"
    "nomatch account_re False ''[REDACTED SSN]''"
    "nomatch ssn_re False ''[REDACTED CARD]''"
    "nomatch card_re False ''[REDACTED CARD]''"
    "nomatch account_re False ''[REDACTED CARD]''"
    "nomatch ssn_re False ''[REDACTED ACCOUNT]''"
    "nomatch card_re False ''[REDACTED ACCOUNT]''"
    "nomatch account_re False ''[REDACTED ACCOUNT]''"
    by code_simp+
  from idem n [THEN nomatch_re_sub, of r] show ?thesis by blast
qed

section \<open>Unique file names\<close>

lemma splitext_append: "fst (splitext p) @ snd (splitext p) = p"
  by (simp add: splitext_def Let_def)

lemma unique_loop_spec:
  "\<not> os_path_exists E (os_path_join D [unique_loop E D b x new c])
   \<and> (\<not> os_path_exists E (os_path_join D [new]) \<longrightarrow> unique_loop E D b x new c = new)
   \<and> (os_path_exists E (os_path_join D [new]) \<longrightarrow>
        (\<exists>n\<ge>c. unique_loop E D b x new c = b @ ''-'' @ dec n @ x
           \<and> (\<forall>m. c \<le> m \<and> m < n \<longrightarrow> os_path_exists E (os_path_join D [b @ ''-'' @ dec m @ x]))))"
proof (induction E D b x new c rule: unique_loop.induct)
  case (1 E D b x new c)
  show ?case
  proof (cases "os_path_exists E (os_path_join D [new])")
    case False
    then show ?thesis by (simp add: unique_loop.simps [of E D b x new c])
  next
    case True
    let ?r = "unique_loop E D b x (b @ ''-'' @ dec c @ x) (c + 1)"
    from True have eq: "unique_loop E D b x new c = ?r"
      by (simp add: unique_loop.simps [of E D b x new c])
    note IH = "1.IH" [OF True]
    have "\<exists>n\<ge>c. ?r = b @ ''-'' @ dec n @ x
           \<and> (\<forall>m. c \<le> m \<and> m < n \<longrightarrow> os_path_exists E (os_path_join D [b @ ''-'' @ dec m @ x]))"
    proof (cases "os_path_exists E (os_path_join D [b @ ''-'' @ dec c @ x])")
      case False
      with IH have "?r = b @ ''-'' @ dec c @ x" by blast
      then show ?thesis by (intro exI [of _ c]) auto
    next
      case True
      with IH obtain n where n: "c + 1 \<le> n" "?r = b @ ''-'' @ dec n @ x"
        "\<forall>m. c + 1 \<le> m \<and> m < n \<longrightarrow> os_path_exists E (os_path_join D [b @ ''-'' @ dec m @ x])"
        by blast
      have "\<forall>m. c \<le> m \<and> m < n \<longrightarrow> os_path_exists E (os_path_join D [b @ ''-'' @ dec m @ x])"
      proof (intro allI impI)
        fix m assume m: "c \<le> m \<and> m < n"
        show "os_path_exists E (os_path_join D [b @ ''-'' @ dec m @ x])"
        proof (cases "m = c")
          case True
          with \<open>os_path_exists E (os_path_join D [b @ ''-'' @ dec c @ x])\<close> show ?thesis by simp
        next
          case False
          with m n(3) show ?thesis by simp
        qed
      qed
      with n(1,2) show ?thesis by (intro exI [of _ n]) simp
    qed
    with IH True eq show ?thesis by simp
  qed
qed

lemma move_pdf_destination:
  assumes "Move src dst \<in> set (snd (move_pdf w f r))"
  shows "\<exists>yd fn. dst = os_path_join yd [get_unique_filename (existing w) yd fn]"
  using assms
  by (auto simp: move_pdf_def Let_def split: sum.splits option.splits pyval.splits)

text \<open>
  C3.  \<open>get_unique_filename\<close> splits the suggested name into base and extension, and
  returns a name that does not exist in the directory: the suggested name itself when it
  does not exist, and otherwise the base, \<open>-n\<close> and the extension for the smallest
  \<open>n \<ge> 1\<close> whose name does not exist.  So the destination of every move of \<open>move_pdf\<close>
  is a path that does not exist.
\<close>

theorem get_unique_filename_smallest_suffix:
  "(let (base_name, ext) = splitext filename;
        r = get_unique_filename E D filename
    in base_name @ ext = filename
       \<and> \<not> os_path_exists E (os_path_join D [r])
       \<and> (\<not> os_path_exists E (os_path_join D [filename]) \<longrightarrow> r = filename)
       \<and> (os_path_exists E (os_path_join D [filename]) \<longrightarrow>
            (\<exists>n\<ge>1. r = base_name @ ''-'' @ dec n @ ext
               \<and> (\<forall>m. 1 \<le> m \<and> m < n \<longrightarrow>
                     os_path_exists E (os_path_join D [base_name @ ''-'' @ dec m @ ext])))))
   \<and> (Move src dst \<in> set (snd (move_pdf w f a)) \<longrightarrow> \<not> os_path_exists (existing w) dst)"
proof
  obtain b x where s: "splitext filename = (b, x)" by (cases "splitext filename")
  from splitext_append [of filename] s have "b @ x = filename" by simp
  with unique_loop_spec [of E D b x filename 1] s
  show "let (base_name, ext) = splitext filename;
        r = get_unique_filename E D filename
    in base_name @ ext = filename
       \<and> \<not> os_path_exists E (os_path_join D [r])
       \<and> (\<not> os_path_exists E (os_path_join D [filename]) \<longrightarrow> r = filename)
       \<and> (os_path_exists E (os_path_join D [filename]) \<longrightarrow>
            (\<exists>n\<ge>1. r = base_name @ ''-'' @ dec n @ ext
               \<and> (\<forall>m. 1 \<le> m \<and> m < n \<longrightarrow>
                     os_path_exists E (os_path_join D [base_name @ ''-'' @ dec m @ ext]))))"
    by (simp add: get_unique_filename_def Let_def)
next
  show "Move src dst \<in> set (snd (move_pdf w f a)) \<longrightarrow> \<not> os_path_exists (existing w) dst"
  proof
    assume "Move src dst \<in> set (snd (move_pdf w f a))"
    from move_pdf_destination [OF this] obtain yd fn
      where dst: "dst = os_path_join yd [get_unique_filename (existing w) yd fn]" by blast
    obtain b x where s: "splitext fn = (b, x)" by (cases "splitext fn")
    from unique_loop_spec [of "existing w" yd b x fn 1] s
    show "\<not> os_path_exists (existing w) dst"
      by (simp add: dst get_unique_filename_def)
  qed
qed

theorem get_unique_filename_smallest_suffix_witness:
  "os_path_exists [[''d'', ''a.pdf''], [''d'', ''a-1.pdf'']] (os_path_join [''d''] [''a.pdf''])
   \<and> \<not> os_path_exists [[''d'', ''a.pdf''], [''d'', ''a-1.pdf'']]
        (os_path_join [''d'']
          [get_unique_filename [[''d'', ''a.pdf''], [''d'', ''a-1.pdf'']] [''d''] ''a.pdf''])
   \<and> (\<exists>n\<ge>1. get_unique_filename [[''d'', ''a.pdf''], [''d'', ''a-1.pdf'']] [''d''] ''a.pdf''
              = ''a'' @ ''-'' @ dec n @ ''.pdf''
          \<and> (\<forall>m. 1 \<le> m \<and> m < n \<longrightarrow>
                os_path_exists [[''d'', ''a.pdf''], [''d'', ''a-1.pdf'']]
                  (os_path_join [''d''] [''a'' @ ''-'' @ dec m @ ''.pdf''])))
   \<and> Move [''in.pdf''] [OUTPUT_DIR, ''2023'', ''2023 - Invoice'', ''invoice-1.pdf'']
        \<in> set (snd (move_pdf
            \<lparr>document_prompt = ''{PDF_TEXT}'', pypdf_pages = \<lambda>p. Inr [],
             pdfium_open = \<lambda>p. None, pdfium_render = \<lambda>p. [],
             encode_image = \<lambda>c. Inl OSError, vision_service = \<lambda>s. Inl ServiceError,
             llm_service = \<lambda>n p. Fault,
             existing = [[OUTPUT_DIR, ''2023'', ''2023 - Invoice'', ''invoice.pdf'']],
             makedirs = \<lambda>p. None, shutil_move = \<lambda>p q. None\<rparr>
            [''in.pdf'']
            (PDict [(''category'', PStr ''Invoice''), (''date'', PStr ''2023-04-01''),
                    (''filename'', PStr ''invoice.pdf'')])))
   \<and> \<not> os_path_exists [[OUTPUT_DIR, ''2023'', ''2023 - Invoice'', ''invoice.pdf'']]
        [OUTPUT_DIR, ''2023'', ''2023 - Invoice'', ''invoice-1.pdf'']"
proof -
  let ?E = "[[''d'', ''a.pdf''], [''d'', ''a-1.pdf'']]"
  let ?w = "\<lparr>document_prompt = ''{PDF_TEXT}'', pypdf_pages = \<lambda>p. Inr [],
             pdfium_open = \<lambda>p. None, pdfium_render = \<lambda>p. [],
             encode_image = \<lambda>c. Inl OSError, vision_service = \<lambda>s. Inl ServiceError,
             llm_service = \<lambda>n p. Fault,
             existing = [[OUTPUT_DIR, ''2023'', ''2023 - Invoice'', ''invoice.pdf'']],
             makedirs = \<lambda>p. None, shutil_move = \<lambda>p q. None\<rparr>"
  let ?a = "PDict [(''category'', PStr ''Invoice''), (''date'', PStr ''2023-04-01''),
                    (''filename'', PStr ''invoice.pdf'')]"
  have s: "splitext ''a.pdf'' = (''a'', ''.pdf'')" by code_simp
  have h: "os_path_exists ?E (os_path_join [''d''] [''a.pdf''])"
    by (simp add: os_path_exists_def os_path_join_def)
  have mv: "Move [''in.pdf''] [OUTPUT_DIR, ''2023'', ''2023 - Invoice'', ''invoice-1.pdf'']
        \<in> set (snd (move_pdf ?w [''in.pdf''] ?a))"
    by code_simp
  from get_unique_filename_smallest_suffix
    [where filename = "''a.pdf''" and E = ?E and D = "[''d'']" and w = ?w
       and f = "[''in.pdf'']" and a = ?a and src = "[''in.pdf'']"
       and dst = "[OUTPUT_DIR, ''2023'', ''2023 - Invoice'', ''invoice-1.pdf'']"]
    s h mv
  show ?thesis by (simp add: Let_def)
qed

section \<open>The destination directory\<close>

lemma year_dir_string_date:
  assumes "map_of kvs ''category'' = Some c" and "map_of kvs ''date'' = Some (PStr d)"
    and "map_of kvs ''filename'' = Some fn" and "d \<noteq> []" and "d \<noteq> ''unknown''"
  shows "year_dir (PDict kvs)
           = Inr (os_path_join [OUTPUT_DIR] [take 4 d, take 4 d @ '' - '' @ py_str c])"
  using assms by (simp add: year_dir_def subscript_def slice4_def)

lemma year_dir_placeholder:
  assumes "map_of kvs ''category'' = Some c" and "map_of kvs ''date'' = Some dv"
    and "map_of kvs ''filename'' = Some fn" and "\<not> truthy dv \<or> dv = PStr ''unknown''"
  shows "year_dir (PDict kvs)
           = Inr (os_path_join [OUTPUT_DIR] [''Unkn'', ''Unkn - '' @ py_str c])"
  using assms by (auto simp: year_dir_def subscript_def)

lemma year_dir_no_date:
  assumes "map_of kvs ''date'' = None"
  shows "year_dir (PDict kvs) = Inl KeyError"
  using assms by (simp add: year_dir_def subscript_def split: option.splits)

lemma move_pdf_into_year_dir:
  assumes "year_dir a = Inr yd" and "fst (move_pdf w f a) = Inr p"
  shows "\<exists>name. p = os_path_join yd [name]"
  using assms
  by (auto simp: move_pdf_def Let_def split: option.splits sum.splits pyval.splits)

text \<open>
  C4 (as amended).  For a result that has the fields \<open>category\<close>, \<open>date\<close> and
  \<open>filename\<close>: when \<open>date\<close> is a non-empty string other than \<open>unknown\<close>, the
  destination directory is the output root, the year, and the year with the category,
  where the year is the first four characters of \<open>date\<close>; when \<open>date\<close> is empty (or
  any other false value) or \<open>unknown\<close>, the year is \<open>Unkn\<close>.  When the field
  \<open>date\<close> is absent, \<open>move_pdf\<close> raises \<open>KeyError\<close> before it touches anything.
  Whatever \<open>move_pdf\<close> files goes into the directory computed.
\<close>

theorem year_dir_from_date:
  "(map_of kvs ''category'' = Some c \<and> map_of kvs ''date'' = Some (PStr d)
      \<and> map_of kvs ''filename'' = Some fn \<and> d \<noteq> [] \<and> d \<noteq> ''unknown'' \<longrightarrow>
      year_dir (PDict kvs)
        = Inr (os_path_join [OUTPUT_DIR] [take 4 d, take 4 d @ '' - '' @ py_str c]))
   \<and> (map_of kvs ''category'' = Some c \<and> map_of kvs ''date'' = Some dv
      \<and> map_of kvs ''filename'' = Some fn \<and> (\<not> truthy dv \<or> dv = PStr ''unknown'') \<longrightarrow>
      year_dir (PDict kvs)
        = Inr (os_path_join [OUTPUT_DIR] [''Unkn'', ''Unkn - '' @ py_str c]))
   \<and> (map_of kvs ''date'' = None \<longrightarrow>
      year_dir (PDict kvs) = Inl KeyError \<and> move_pdf w f (PDict kvs) = (Inl KeyError, []))
   \<and> (year_dir a = Inr yd \<and> fst (move_pdf w f a) = Inr p \<longrightarrow>
      (\<exists>name. p = os_path_join yd [name]))"
proof (intro conjI impI)
  show "year_dir (PDict kvs)
        = Inr (os_path_join [OUTPUT_DIR] [take 4 d, take 4 d @ '' - '' @ py_str c])"
    if "map_of kvs ''category'' = Some c \<and> map_of kvs ''date'' = Some (PStr d)
      \<and> map_of kvs ''filename'' = Some fn \<and> d \<noteq> [] \<and> d \<noteq> ''unknown''"
    using that year_dir_string_date [of kvs c d fn] by blast
  show "year_dir (PDict kvs)
        = Inr (os_path_join [OUTPUT_DIR] [''Unkn'', ''Unkn - '' @ py_str c])"
    if "map_of kvs ''category'' = Some c \<and> map_of kvs ''date'' = Some dv
      \<and> map_of kvs ''filename'' = Some fn \<and> (\<not> truthy dv \<or> dv = PStr ''unknown'')"
    using that year_dir_placeholder [of kvs c dv fn] by blast
  show "year_dir (PDict kvs) = Inl KeyError" if "map_of kvs ''date'' = None"
    using that by (rule year_dir_no_date)
  show "move_pdf w f (PDict kvs) = (Inl KeyError, [])" if "map_of kvs ''date'' = None"
    using year_dir_no_date [OF that] by (simp add: move_pdf_def)
  show "\<exists>name. p = os_path_join yd [name]"
    if "year_dir a = Inr yd \<and> fst (move_pdf w f a) = Inr p"
    using that move_pdf_into_year_dir [of a yd w f p] by blast
qed

text \<open>
  C4 as stated fails for an absent \<open>date\<close>: no directory with \<open>Unkn\<close> is
  computed, \<open>KeyError\<close> is raised.
\<close>

theorem year_dir_absent_date_counterexample:
  "year_dir (PDict [(''category'', PStr ''Invoice''), (''filename'', PStr ''invoice.pdf'')])
     = Inl KeyError
   \<and> year_dir (PDict [(''category'', PStr ''Invoice''), (''filename'', PStr ''invoice.pdf'')])
     \<noteq> Inr (os_path_join [OUTPUT_DIR] [''Unkn'', ''Unkn - Invoice''])"
  by (simp add: year_dir_def subscript_def)

text \<open>
  C10.  A \<open>date\<close> that is a non-empty string of fewer than four characters (so it is
  not \<open>unknown\<close>) is the year as a whole: the destination directory is the output
  root, the date, and the date with the category, and what \<open>move_pdf\<close> files goes
  there.
\<close>

theorem year_dir_short_date:
  "map_of kvs ''category'' = Some c \<and> map_of kvs ''date'' = Some (PStr d)
     \<and> map_of kvs ''filename'' = Some fn \<and> d \<noteq> [] \<and> d \<noteq> ''unknown'' \<and> length d < 4 \<longrightarrow>
   year_dir (PDict kvs) = Inr (os_path_join [OUTPUT_DIR] [d, d @ '' - '' @ py_str c])
   \<and> (\<forall>p. fst (move_pdf w f (PDict kvs)) = Inr p \<longrightarrow>
         (\<exists>name. p = os_path_join [OUTPUT_DIR] [d, d @ '' - '' @ py_str c, name]))"
proof (intro impI, elim conjE)
  assume a: "map_of kvs ''category'' = Some c" "map_of kvs ''date'' = Some (PStr d)"
    "map_of kvs ''filename'' = Some fn" "d \<noteq> []" "d \<noteq> ''unknown''" "length d < 4"
  from year_dir_string_date [OF a(1-5)] a(6)
  have yd: "year_dir (PDict kvs) = Inr (os_path_join [OUTPUT_DIR] [d, d @ '' - '' @ py_str c])"
    by simp
  moreover have "\<exists>name. p = os_path_join [OUTPUT_DIR] [d, d @ '' - '' @ py_str c, name]"
    if "fst (move_pdf w f (PDict kvs)) = Inr p" for p
    using move_pdf_into_year_dir [OF yd that] by (simp add: os_path_join_def)
  ultimately show "year_dir (PDict kvs) = Inr (os_path_join [OUTPUT_DIR] [d, d @ '' - '' @ py_str c])
   \<and> (\<forall>p. fst (move_pdf w f (PDict kvs)) = Inr p \<longrightarrow>
         (\<exists>name. p = os_path_join [OUTPUT_DIR] [d, d @ '' - '' @ py_str c, name]))"
    by blast
qed

theorem year_dir_from_date_witness:
  "year_dir (PDict [(''category'', PStr ''Invoice''), (''date'', PStr ''2023-04-01''),
                    (''filename'', PStr ''invoice.pdf'')])
     = Inr [OUTPUT_DIR, ''2023'', ''2023 - Invoice'']
   \<and> year_dir (PDict [(''category'', PStr ''Invoice''), (''date'', PStr ''unknown''),
                    (''filename'', PStr ''invoice.pdf'')])
     = Inr [OUTPUT_DIR, ''Unkn'', ''Unkn - Invoice'']
   \<and> year_dir (PDict [(''category'', PStr ''Invoice''), (''date'', PStr []),
                    (''filename'', PStr ''invoice.pdf'')])
     = Inr [OUTPUT_DIR, ''Unkn'', ''Unkn - Invoice'']
   \<and> year_dir (PDict [(''category'', PStr ''Invoice''), (''filename'', PStr ''invoice.pdf'')])
     = Inl KeyError
   \<and> move_pdf quiet_world [''in.pdf'']
        (PDict [(''category'', PStr ''Invoice''), (''filename'', PStr ''invoice.pdf'')])
     = (Inl KeyError, [])
   \<and> fst (move_pdf quiet_world [''in.pdf'']
        (PDict [(''category'', PStr ''Invoice''), (''date'', PStr ''2023-04-01''),
                (''filename'', PStr ''invoice.pdf'')]))
     = Inr [OUTPUT_DIR, ''2023'', ''2023 - Invoice'', ''invoice.pdf'']
   \<and> (\<exists>name. [OUTPUT_DIR, ''2023'', ''2023 - Invoice'', ''invoice.pdf'']
        = os_path_join [OUTPUT_DIR, ''2023'', ''2023 - Invoice''] [name])"
proof -
  let ?k1 = "[(''category'', PStr ''Invoice''), (''date'', PStr ''2023-04-01''),
              (''filename'', PStr ''invoice.pdf'')]"
  let ?k2 = "[(''category'', PStr ''Invoice''), (''date'', PStr ''unknown''),
              (''filename'', PStr ''invoice.pdf'')]"
  let ?k3 = "[(''category'', PStr ''Invoice''), (''date'', PStr []),
              (''filename'', PStr ''invoice.pdf'')]"
  let ?k4 = "[(''category'', PStr ''Invoice''), (''filename'', PStr ''invoice.pdf'')]"
  have mv: "fst (move_pdf quiet_world [''in.pdf''] (PDict ?k1))
     = Inr [OUTPUT_DIR, ''2023'', ''2023 - Invoice'', ''invoice.pdf'']"
    by code_simp
  from year_dir_from_date [where kvs = ?k1 and c = "PStr ''Invoice''" and d = "''2023-04-01''"
      and fn = "PStr ''invoice.pdf''"]
  have a: "year_dir (PDict ?k1) = Inr [OUTPUT_DIR, ''2023'', ''2023 - Invoice'']"
    by (simp add: py_str_def os_path_join_def)
  from year_dir_from_date [where kvs = ?k2 and c = "PStr ''Invoice''" and dv = "PStr ''unknown''"
      and fn = "PStr ''invoice.pdf''"]
  have b: "year_dir (PDict ?k2) = Inr [OUTPUT_DIR, ''Unkn'', ''Unkn - Invoice'']"
    by (simp add: py_str_def os_path_join_def)
  from year_dir_from_date [where kvs = ?k3 and c = "PStr ''Invoice''" and dv = "PStr []"
      and fn = "PStr ''invoice.pdf''"]
  have c: "year_dir (PDict ?k3) = Inr [OUTPUT_DIR, ''Unkn'', ''Unkn - Invoice'']"
    by (simp add: py_str_def os_path_join_def)
  from year_dir_from_date [where kvs = ?k4 and w = quiet_world and f = "[''in.pdf'']"]
  have d: "year_dir (PDict ?k4) = Inl KeyError"
    "move_pdf quiet_world [''in.pdf''] (PDict ?k4) = (Inl KeyError, [])"
    by simp_all
  from year_dir_from_date [where a = "PDict ?k1" and yd = "[OUTPUT_DIR, ''2023'', ''2023 - Invoice'']"
      and w = quiet_world and f = "[''in.pdf'']"
      and p = "[OUTPUT_DIR, ''2023'', ''2023 - Invoice'', ''invoice.pdf'']"] a mv
  have e: "\<exists>name. [OUTPUT_DIR, ''2023'', ''2023 - Invoice'', ''invoice.pdf'']
        = os_path_join [OUTPUT_DIR, ''2023'', ''2023 - Invoice''] [name]"
    by blast
  from a b c d e mv show ?thesis by blast
qed

theorem year_dir_short_date_witness:
  "map_of [(''category'', PStr ''Memo''), (''date'', PStr ''99''), (''filename'', PStr ''m.pdf'')]
      ''date'' = Some (PStr ''99'')
   \<and> length ''99'' < 4
   \<and> year_dir (PDict [(''category'', PStr ''Memo''), (''date'', PStr ''99''),
                    (''filename'', PStr ''m.pdf'')])
     = Inr [OUTPUT_DIR, ''99'', ''99 - Memo'']
   \<and> fst (move_pdf quiet_world [''in.pdf'']
        (PDict [(''category'', PStr ''Memo''), (''date'', PStr ''99''),
                (''filename'', PStr ''m.pdf'')]))
     = Inr [OUTPUT_DIR, ''99'', ''99 - Memo'', ''m.pdf'']
   \<and> (\<exists>name. [OUTPUT_DIR, ''99'', ''99 - Memo'', ''m.pdf'']
        = os_path_join [OUTPUT_DIR] [''99'', ''99'' @ '' - '' @ py_str (PStr ''Memo''), name])"
proof -
  let ?k = "[(''category'', PStr ''Memo''), (''date'', PStr ''99''), (''filename'', PStr ''m.pdf'')]"
  have mv: "fst (move_pdf quiet_world [''in.pdf''] (PDict ?k))
     = Inr [OUTPUT_DIR, ''99'', ''99 - Memo'', ''m.pdf'']"
    by code_simp
  from year_dir_short_date [where kvs = ?k and c = "PStr ''Memo''" and d = "''99''"
      and fn = "PStr ''m.pdf''" and w = quiet_world and f = "[''in.pdf'']"]
  have yd: "year_dir (PDict ?k)
      = Inr (os_path_join [OUTPUT_DIR] [''99'', ''99'' @ '' - '' @ py_str (PStr ''Memo'')])"
    and mp: "\<forall>p. fst (move_pdf quiet_world [''in.pdf''] (PDict ?k)) = Inr p \<longrightarrow>
         (\<exists>name. p = os_path_join [OUTPUT_DIR]
            [''99'', ''99'' @ '' - '' @ py_str (PStr ''Memo''), name])"
    by simp_all
  from yd have a: "year_dir (PDict ?k) = Inr [OUTPUT_DIR, ''99'', ''99 - Memo'']"
    by (simp add: py_str_def os_path_join_def)
  from mp mv have b: "\<exists>name. [OUTPUT_DIR, ''99'', ''99 - Memo'', ''m.pdf'']
        = os_path_join [OUTPUT_DIR] [''99'', ''99'' @ '' - '' @ py_str (PStr ''Memo''), name]"
    by blast
  from a b mv show ?thesis by simp
qed

section \<open>The unreadable predicate\<close>

text \<open>
  C5.  The unreadable predicate holds exactly when the result is a dictionary whose
  \<open>category\<close> field is a string that, lower-cased, equals \<open>unreadable\<close>.  On such a
  result it never raises, it reads no other field, and it accepts \<open>Unreadable\<close> and
  rejects \<open>unreadable memo\<close>.
\<close>

theorem is_unreadable_category_only:
  "((is_unreadable r = Inr True) =
      (\<exists>kvs c. r = PDict kvs \<and> map_of kvs ''category'' = Some (PStr c)
         \<and> lower c = ''unreadable''))
   \<and> (map_of kvs ''category'' = Some (PStr c) \<longrightarrow>
        is_unreadable (PDict kvs) = Inr (lower c = ''unreadable''))
   \<and> (map_of kvs ''category'' = map_of kvs' ''category'' \<longrightarrow>
        is_unreadable (PDict kvs) = is_unreadable (PDict kvs'))
   \<and> is_unreadable (PDict [(''category'', PStr ''Unreadable'')]) = Inr True
   \<and> is_unreadable (PDict [(''category'', PStr ''unreadable memo'')]) = Inr False"
proof (intro conjI impI)
  show "(is_unreadable r = Inr True) =
      (\<exists>kvs c. r = PDict kvs \<and> map_of kvs ''category'' = Some (PStr c)
         \<and> lower c = ''unreadable'')"
    by (cases r)
      (auto simp: is_unreadable_def dict_get_def lower_def split: option.splits pyval.splits)
  show "is_unreadable (PDict kvs) = Inr (lower c = ''unreadable'')"
    if "map_of kvs ''category'' = Some (PStr c)"
    using that by (simp add: is_unreadable_def dict_get_def)
  show "is_unreadable (PDict kvs) = is_unreadable (PDict kvs')"
    if "map_of kvs ''category'' = map_of kvs' ''category''"
    using that by (simp add: is_unreadable_def dict_get_def)
  show "is_unreadable (PDict [(''category'', PStr ''Unreadable'')]) = Inr True"
    by code_simp
  show "is_unreadable (PDict [(''category'', PStr ''unreadable memo'')]) = Inr False"
    by code_simp
qed

theorem is_unreadable_category_only_witness:
  "map_of [(''category'', PStr ''UNREADABLE''), (''date'', PStr ''unknown'')] ''category''
     = Some (PStr ''UNREADABLE'')
   \<and> is_unreadable (PDict [(''category'', PStr ''UNREADABLE''), (''date'', PStr ''unknown'')])
     = Inr (lower ''UNREADABLE'' = ''unreadable'')
   \<and> map_of [(''category'', PStr ''UNREADABLE''), (''date'', PStr ''unknown'')] ''category''
     = map_of [(''filename'', PStr ''a.pdf''), (''category'', PStr ''UNREADABLE'')] ''category''
   \<and> is_unreadable (PDict [(''category'', PStr ''UNREADABLE''), (''date'', PStr ''unknown'')])
     = is_unreadable (PDict [(''filename'', PStr ''a.pdf''), (''category'', PStr ''UNREADABLE'')])"
proof -
  have h1: "map_of [(''category'', PStr ''UNREADABLE''), (''date'', PStr ''unknown'')] ''category''
     = Some (PStr ''UNREADABLE'')"
    by simp
  have h2: "map_of [(''category'', PStr ''UNREADABLE''), (''date'', PStr ''unknown'')] ''category''
     = map_of [(''filename'', PStr ''a.pdf''), (''category'', PStr ''UNREADABLE'')] ''category''"
    by simp
  show ?thesis
    using h1 h2
      is_unreadable_category_only
        [of PNone "[(''category'', PStr ''UNREADABLE''), (''date'', PStr ''unknown'')]"
          "''UNREADABLE''" "[(''filename'', PStr ''a.pdf''), (''category'', PStr ''UNREADABLE'')]"]
    by blast
qed

section \<open>The orchestrator: retry, failure and skipping\<close>

lemma pypdf_effects: "snd (extract_text_with_pypdf w f) = [NativeExtract f]"
  by (simp add: extract_text_with_pypdf_def split: sum.splits)

lemma llm_effects:
  "snd (get_llm_metadata P service text)
     = [ClassifyRequest (py_replace ''{PDF_TEXT}'' (take 3000 text) P)]"
  by (simp add: get_llm_metadata_def Let_def split: reply.splits)

lemma vision_effects_head:
  "\<exists>rest. snd (extract_text_with_gpt4_vision w f) = VisionExtract f # rest
     \<and> (\<forall>s d. Move s d \<notin> set rest) \<and> (\<forall>d. Makedirs d \<notin> set rest)"
  by (simp add: extract_text_with_gpt4_vision_def split: option.splits sum.splits)

lemma move_effects_no_vision: "VisionExtract p \<notin> set (snd (move_pdf w f a))"
  by (simp add: move_pdf_def Let_def split: option.splits sum.splits pyval.splits)

lemma falsy_no_trigger:
  assumes "\<not> truthy v"
  shows "\<not> contains ''unknown'' (lower (py_str v))"
    and "\<not> contains ''unidentified'' (lower (py_str v))"
proof -
  have e: "\<not> contains ''unknown'' (lower (py_str PNone))"
    "\<not> contains ''unidentified'' (lower (py_str PNone))"
    "\<not> contains ''unknown'' (lower (py_str (PBool False)))"
    "\<not> contains ''unidentified'' (lower (py_str (PBool False)))"
    "\<not> contains ''unknown'' (lower (py_str (PInt 0)))"
    "\<not> contains ''unidentified'' (lower (py_str (PInt 0)))"
    "\<not> contains ''unknown'' (lower (py_str (PFloat ''0.0'')))"
    "\<not> contains ''unidentified'' (lower (py_str (PFloat ''0.0'')))"
    "\<not> contains ''unknown'' (lower (py_str (PFloat ''-0.0'')))"
    "\<not> contains ''unidentified'' (lower (py_str (PFloat ''-0.0'')))"
    "\<not> contains ''unknown'' (lower (py_str (PStr [])))"
    "\<not> contains ''unidentified'' (lower (py_str (PStr [])))"
    "\<not> contains ''unknown'' (lower (py_str (PList [])))"
    "\<not> contains ''unidentified'' (lower (py_str (PList [])))"
    "\<not> contains ''unknown'' (lower (py_str (PDict [])))"
    "\<not> contains ''unidentified'' (lower (py_str (PDict [])))"
    by code_simp+
  from assms e show "\<not> contains ''unknown'' (lower (py_str v))"
    by (cases v) auto
  from assms e show "\<not> contains ''unidentified'' (lower (py_str v))"
    by (cases v) auto
qed

lemma process_pdf_falsy:
  assumes "\<not> truthy (fst (get_llm_metadata (document_prompt w) (llm_service w 0)
                        (fst (extract_text_with_pypdf w f))))"
  shows "process_pdf w f
     = (SkippedLLMError,
        [NativeExtract f,
         ClassifyRequest (py_replace ''{PDF_TEXT}''
           (take 3000 (fst (extract_text_with_pypdf w f))) (document_prompt w))])"
proof -
  obtain t1 e1 where x: "extract_text_with_pypdf w f = (t1, e1)"
    by (cases "extract_text_with_pypdf w f")
  obtain r1 e2 where c: "get_llm_metadata (document_prompt w) (llm_service w 0) t1 = (r1, e2)"
    by (cases "get_llm_metadata (document_prompt w) (llm_service w 0) t1")
  from pypdf_effects [of w f] x have e1: "e1 = [NativeExtract f]" by simp
  from llm_effects [of "document_prompt w" "llm_service w 0" t1] c
  have e2: "e2 = [ClassifyRequest (py_replace ''{PDF_TEXT}'' (take 3000 t1) (document_prompt w))]"
    by simp
  from assms x c show ?thesis by (simp add: process_pdf_def e1 e2)
qed

lemma process_pdf_retry:
  assumes "truthy r1"
    and "contains ''unknown'' (lower (py_str r1)) \<or> contains ''unidentified'' (lower (py_str r1))"
    and "r1 = fst (get_llm_metadata (document_prompt w) (llm_service w 0)
                    (fst (extract_text_with_pypdf w f)))"
  shows "process_pdf w f =
     (let ev = snd (extract_text_with_pypdf w f)
             @ snd (get_llm_metadata (document_prompt w) (llm_service w 0)
                    (fst (extract_text_with_pypdf w f)))
             @ snd (extract_text_with_gpt4_vision w f)
             @ snd (get_llm_metadata (document_prompt w) (llm_service w 1)
                    (fst (extract_text_with_gpt4_vision w f)));
          r2 = fst (get_llm_metadata (document_prompt w) (llm_service w 1)
                    (fst (extract_text_with_gpt4_vision w f)))
      in case is_unreadable r2 of
           Inl e \<Rightarrow> (Failed e, ev)
         | Inr True \<Rightarrow> (SkippedUnreadable, ev)
         | Inr False \<Rightarrow>
             (case move_pdf w f r2 of
                (Inl e, ev4) \<Rightarrow> (Failed e, ev @ ev4)
              | (Inr p, ev4) \<Rightarrow> (Filed p, ev @ ev4)))"
  using assms
  by (simp add: process_pdf_def Let_def split_beta split: sum.splits bool.splits prod.splits)

lemma process_pdf_no_retry:
  assumes "truthy r1"
    and "\<not> (contains ''unknown'' (lower (py_str r1)) \<or> contains ''unidentified'' (lower (py_str r1)))"
    and "r1 = fst (get_llm_metadata (document_prompt w) (llm_service w 0)
                    (fst (extract_text_with_pypdf w f)))"
  shows "process_pdf w f =
     (let ev = snd (extract_text_with_pypdf w f)
             @ snd (get_llm_metadata (document_prompt w) (llm_service w 0)
                    (fst (extract_text_with_pypdf w f)))
      in case is_unreadable r1 of
           Inl e \<Rightarrow> (Failed e, ev)
         | Inr True \<Rightarrow> (SkippedUnreadable, ev)
         | Inr False \<Rightarrow>
             (case move_pdf w f r1 of
                (Inl e, ev4) \<Rightarrow> (Failed e, ev @ ev4)
              | (Inr p, ev4) \<Rightarrow> (Filed p, ev @ ev4)))"
  using assms
  by (simp add: process_pdf_def Let_def split_beta split: sum.splits bool.splits prod.splits)

text \<open>
  C2.  \<open>process_pdf\<close> starts the image extraction exactly when the lower-cased string
  form of the first classification result contains \<open>unknown\<close> or \<open>unidentified\<close>;
  a false result, which ends the document before the test, contains neither.  When a
  true first result contains one of them, the image extraction runs, its text is
  classified by a second request, and the document is skipped, filed or failed by the
  second result.  When it contains neither, no image extraction and no second request
  is made, and the document is skipped, filed or failed by the first result.  A result
  with \<open>"date": "unknown"\<close> contains the word; a result without either word does not.
\<close>

theorem ocr_retry_trigger:
  "(let ev1 = snd (extract_text_with_pypdf w f);
        c1 = get_llm_metadata (document_prompt w) (llm_service w 0)
               (fst (extract_text_with_pypdf w f));
        r1 = fst c1;
        trigger = (contains ''unknown'' (lower (py_str r1))
                   \<or> contains ''unidentified'' (lower (py_str r1)));
        ocr = extract_text_with_gpt4_vision w f;
        c2 = get_llm_metadata (document_prompt w) (llm_service w 1) (fst ocr);
        r2 = fst c2
    in ((VisionExtract f \<in> set (snd (process_pdf w f))) = trigger)
       \<and> (\<not> truthy r1 \<longrightarrow> \<not> trigger)
       \<and> (truthy r1 \<and> trigger \<longrightarrow>
            process_pdf w f =
              (case is_unreadable r2 of
                 Inl e \<Rightarrow> (Failed e, ev1 @ snd c1 @ snd ocr @ snd c2)
               | Inr True \<Rightarrow> (SkippedUnreadable, ev1 @ snd c1 @ snd ocr @ snd c2)
               | Inr False \<Rightarrow>
                   (case move_pdf w f r2 of
                      (Inl e, ev4) \<Rightarrow> (Failed e, ev1 @ snd c1 @ snd ocr @ snd c2 @ ev4)
                    | (Inr p, ev4) \<Rightarrow> (Filed p, ev1 @ snd c1 @ snd ocr @ snd c2 @ ev4))))
       \<and> (truthy r1 \<and> \<not> trigger \<longrightarrow>
            process_pdf w f =
              (case is_unreadable r1 of
                 Inl e \<Rightarrow> (Failed e, ev1 @ snd c1)
               | Inr True \<Rightarrow> (SkippedUnreadable, ev1 @ snd c1)
               | Inr False \<Rightarrow>
                   (case move_pdf w f r1 of
                      (Inl e, ev4) \<Rightarrow> (Failed e, ev1 @ snd c1 @ ev4)
                    | (Inr p, ev4) \<Rightarrow> (Filed p, ev1 @ snd c1 @ ev4)))))
   \<and> contains ''unknown''
        (lower (py_str (PDict [(''category'', PStr ''Invoice''), (''date'', PStr ''unknown''),
                               (''filename'', PStr ''invoice.pdf'')])))
   \<and> \<not> (contains ''unknown''
            (lower (py_str (PDict [(''category'', PStr ''Invoice''),
                                   (''date'', PStr ''2023-04-01''),
                                   (''filename'', PStr ''invoice.pdf'')])))
          \<or> contains ''unidentified''
            (lower (py_str (PDict [(''category'', PStr ''Invoice''),
                                   (''date'', PStr ''2023-04-01''),
                                   (''filename'', PStr ''invoice.pdf'')]))))"
proof -
  let ?ev1 = "snd (extract_text_with_pypdf w f)"
  let ?c1 = "get_llm_metadata (document_prompt w) (llm_service w 0)
               (fst (extract_text_with_pypdf w f))"
  let ?r1 = "fst ?c1"
  let ?trig = "contains ''unknown'' (lower (py_str ?r1))
                   \<or> contains ''unidentified'' (lower (py_str ?r1))"
  let ?ocr = "extract_text_with_gpt4_vision w f"
  let ?c2 = "get_llm_metadata (document_prompt w) (llm_service w 1) (fst ?ocr)"
  let ?r2 = "fst ?c2"
  have falsy: "\<not> ?trig" if "\<not> truthy ?r1"
    using falsy_no_trigger [OF that] by simp
  have retry: "process_pdf w f =
              (case is_unreadable ?r2 of
                 Inl e \<Rightarrow> (Failed e, ?ev1 @ snd ?c1 @ snd ?ocr @ snd ?c2)
               | Inr True \<Rightarrow> (SkippedUnreadable, ?ev1 @ snd ?c1 @ snd ?ocr @ snd ?c2)
               | Inr False \<Rightarrow>
                   (case move_pdf w f ?r2 of
                      (Inl e, ev4) \<Rightarrow> (Failed e, ?ev1 @ snd ?c1 @ snd ?ocr @ snd ?c2 @ ev4)
                    | (Inr p, ev4) \<Rightarrow> (Filed p, ?ev1 @ snd ?c1 @ snd ?ocr @ snd ?c2 @ ev4)))"
    if "truthy ?r1" "?trig"
    using process_pdf_retry [OF that refl]
    by (simp add: Let_def split: sum.splits bool.splits prod.splits)
  have plain: "process_pdf w f =
              (case is_unreadable ?r1 of
                 Inl e \<Rightarrow> (Failed e, ?ev1 @ snd ?c1)
               | Inr True \<Rightarrow> (SkippedUnreadable, ?ev1 @ snd ?c1)
               | Inr False \<Rightarrow>
                   (case move_pdf w f ?r1 of
                      (Inl e, ev4) \<Rightarrow> (Failed e, ?ev1 @ snd ?c1 @ ev4)
                    | (Inr p, ev4) \<Rightarrow> (Filed p, ?ev1 @ snd ?c1 @ ev4)))"
    if "truthy ?r1" "\<not> ?trig"
    using process_pdf_no_retry [OF that refl]
    by (simp add: Let_def split: sum.splits bool.splits prod.splits)
  have marker: "(VisionExtract f \<in> set (snd (process_pdf w f))) = ?trig"
  proof (cases "truthy ?r1")
    case False
    then have "VisionExtract f \<notin> set (snd (process_pdf w f))"
      by (simp add: process_pdf_falsy)
    with falsy [OF False] show ?thesis by blast
  next
    case True
    show ?thesis
    proof (cases ?trig)
      case yes: True
      from vision_effects_head [of w f] obtain rest
        where "snd ?ocr = VisionExtract f # rest" by blast
      then have "VisionExtract f \<in> set (snd (process_pdf w f))"
        by (simp add: retry [OF True yes] split: sum.splits bool.splits prod.splits)
      with yes show ?thesis by blast
    next
      case no: False
      have "VisionExtract f \<notin> set (snd (process_pdf w f))"
        using move_effects_no_vision [of f w f ?r1]
        by (auto simp: plain [OF True no] pypdf_effects llm_effects
            split: sum.splits bool.splits prod.splits)
      with no show ?thesis by blast
    qed
  qed
  have ex1: "contains ''unknown''
        (lower (py_str (PDict [(''category'', PStr ''Invoice''), (''date'', PStr ''unknown''),
                               (''filename'', PStr ''invoice.pdf'')])))"
    by code_simp
  have ex2: "\<not> (contains ''unknown''
            (lower (py_str (PDict [(''category'', PStr ''Invoice''),
                                   (''date'', PStr ''2023-04-01''),
                                   (''filename'', PStr ''invoice.pdf'')])))
          \<or> contains ''unidentified''
            (lower (py_str (PDict [(''category'', PStr ''Invoice''),
                                   (''date'', PStr ''2023-04-01''),
                                   (''filename'', PStr ''invoice.pdf'')]))))"
    by code_simp
  show ?thesis
    unfolding Let_def
    using marker falsy retry plain ex1 ex2 by (intro conjI impI) blast+
qed

theorem ocr_retry_trigger_witness:
  "truthy (PDict [(''category'', PStr ''Unknown''), (''date'', PStr ''unknown''),
                  (''filename'', PStr ''x.pdf'')])
   \<and> contains ''unknown''
        (lower (py_str (PDict [(''category'', PStr ''Unknown''), (''date'', PStr ''unknown''),
                               (''filename'', PStr ''x.pdf'')])))
   \<and> process_pdf
        (quiet_world\<lparr>pdfium_render := \<lambda>p. [Inr (1224, 1584)],
           vision_service := \<lambda>s. Inr ''Invoice 2023'',
           llm_service := \<lambda>n p. if n = 0
             then Parsed (PDict [(''category'', PStr ''Unknown''), (''date'', PStr ''unknown''),
                                 (''filename'', PStr ''x.pdf'')])
             else Parsed (PDict [(''category'', PStr ''Invoice''),
                                 (''date'', PStr ''2023-04-01''),
                                 (''filename'', PStr ''invoice.pdf'')])\<rparr>)
        [''scan.pdf'']
      = (Filed [OUTPUT_DIR, ''2023'', ''2023 - Invoice'', ''invoice.pdf''],
         [NativeExtract [''scan.pdf''], ClassifyRequest [],
          VisionExtract [''scan.pdf''], PdfOpen [''scan.pdf''], PdfClose [''scan.pdf''],
          VisionRequest ''png'', ClassifyRequest ''Invoice 2023'',
          Makedirs [OUTPUT_DIR, ''2023'', ''2023 - Invoice''],
          Move [''scan.pdf''] [OUTPUT_DIR, ''2023'', ''2023 - Invoice'', ''invoice.pdf'']])
   \<and> truthy (PDict [(''category'', PStr ''Invoice''), (''date'', PStr ''2023-04-01''),
                    (''filename'', PStr ''invoice.pdf'')])
   \<and> process_pdf
        (quiet_world\<lparr>llm_service := \<lambda>n p.
             Parsed (PDict [(''category'', PStr ''Invoice''), (''date'', PStr ''2023-04-01''),
                            (''filename'', PStr ''invoice.pdf'')])\<rparr>)
        [''text.pdf'']
      = (Filed [OUTPUT_DIR, ''2023'', ''2023 - Invoice'', ''invoice.pdf''],
         [NativeExtract [''text.pdf''], ClassifyRequest [],
          Makedirs [OUTPUT_DIR, ''2023'', ''2023 - Invoice''],
          Move [''text.pdf''] [OUTPUT_DIR, ''2023'', ''2023 - Invoice'', ''invoice.pdf'']])
   \<and> \<not> truthy (PDict [])
   \<and> \<not> contains ''unknown'' (lower (py_str (PDict [])))"
proof -
  let ?a = "PDict [(''category'', PStr ''Unknown''), (''date'', PStr ''unknown''),
                   (''filename'', PStr ''x.pdf'')]"
  let ?b = "PDict [(''category'', PStr ''Invoice''), (''date'', PStr ''2023-04-01''),
                   (''filename'', PStr ''invoice.pdf'')]"
  let ?wB = "quiet_world\<lparr>pdfium_render := \<lambda>p. [Inr (1224, 1584)],
           vision_service := \<lambda>s. Inr ''Invoice 2023'',
           llm_service := \<lambda>n p. if n = 0 then Parsed ?a else Parsed ?b\<rparr>"
  let ?wA = "quiet_world\<lparr>llm_service := \<lambda>n p. Parsed ?b\<rparr>"
  let ?wF = "quiet_world\<lparr>llm_service := \<lambda>n p. Parsed (PDict [])\<rparr>"
  let ?r1 = "\<lambda>w f. fst (get_llm_metadata (document_prompt w) (llm_service w 0)
                         (fst (extract_text_with_pypdf w f)))"
  have rB: "?r1 ?wB [''scan.pdf''] = ?a" by code_simp
  have rA: "?r1 ?wA [''text.pdf''] = ?b" by code_simp
  have rF: "?r1 ?wF [''e.pdf''] = PDict []" by code_simp
  have tB: "truthy (?r1 ?wB [''scan.pdf''])" by code_simp
  have gB: "contains ''unknown'' (lower (py_str (?r1 ?wB [''scan.pdf'']))) 
     \<or> contains ''unidentified'' (lower (py_str (?r1 ?wB [''scan.pdf''])))"
    by code_simp
  have tA: "truthy (?r1 ?wA [''text.pdf''])" by code_simp
  have gA: "\<not> (contains ''unknown'' (lower (py_str (?r1 ?wA [''text.pdf''])))
     \<or> contains ''unidentified'' (lower (py_str (?r1 ?wA [''text.pdf'']))))"
    by code_simp
  have tF: "\<not> truthy (?r1 ?wF [''e.pdf''])" by code_simp
  note thmB = ocr_retry_trigger [where w = ?wB and f = "[''scan.pdf'']", unfolded Let_def,
      THEN conjunct1]
  note thmA = ocr_retry_trigger [where w = ?wA and f = "[''text.pdf'']", unfolded Let_def,
      THEN conjunct1]
  note thmF = ocr_retry_trigger [where w = ?wF and f = "[''e.pdf'']", unfolded Let_def,
      THEN conjunct1]
  note eqB = thmB [THEN conjunct2, THEN conjunct2, THEN conjunct1, rule_format,
      OF conjI [OF tB gB]]
  note eqA = thmA [THEN conjunct2, THEN conjunct2, THEN conjunct2, rule_format,
      OF conjI [OF tA gA]]
  note nF = thmF [THEN conjunct2, THEN conjunct1, rule_format, OF tF]
  have c1: "truthy ?a" by simp
  have c2: "contains ''unknown'' (lower (py_str ?a))" by code_simp
  have c3: "process_pdf ?wB [''scan.pdf'']
      = (Filed [OUTPUT_DIR, ''2023'', ''2023 - Invoice'', ''invoice.pdf''],
         [NativeExtract [''scan.pdf''], ClassifyRequest [],
          VisionExtract [''scan.pdf''], PdfOpen [''scan.pdf''], PdfClose [''scan.pdf''],
          VisionRequest ''png'', ClassifyRequest ''Invoice 2023'',
          Makedirs [OUTPUT_DIR, ''2023'', ''2023 - Invoice''],
          Move [''scan.pdf''] [OUTPUT_DIR, ''2023'', ''2023 - Invoice'', ''invoice.pdf'']])"
    by (subst eqB) code_simp
  have c4: "truthy ?b" by simp
  have c5: "process_pdf ?wA [''text.pdf'']
      = (Filed [OUTPUT_DIR, ''2023'', ''2023 - Invoice'', ''invoice.pdf''],
         [NativeExtract [''text.pdf''], ClassifyRequest [],
          Makedirs [OUTPUT_DIR, ''2023'', ''2023 - Invoice''],
          Move [''text.pdf''] [OUTPUT_DIR, ''2023'', ''2023 - Invoice'', ''invoice.pdf'']])"
    by (subst eqA) code_simp
  have c6: "\<not> truthy (PDict [])" by simp
  from nF have n7: "\<not> contains ''unknown'' (lower (py_str (?r1 ?wF [''e.pdf''])))"
    by blast
  have c7: "\<not> contains ''unknown'' (lower (py_str (PDict [])))"
    using n7 unfolding rF .
  from c1 c2 c3 c4 c5 c6 c7 show ?thesis by blast
qed

text \<open>
  C6.  When the first result triggers the retry and the second classification has no
  result, \<open>is_unreadable\<close> raises on \<open>None\<close> and \<open>process_pdf\<close> ends in its
  error branch: no directory is made, nothing is moved, and the batch goes on with the
  entries that follow.
\<close>

theorem second_classification_absent_fails:
  "(let r1 = fst (get_llm_metadata (document_prompt w) (llm_service w 0)
                   (fst (extract_text_with_pypdf w f)));
        r2 = fst (get_llm_metadata (document_prompt w) (llm_service w 1)
                   (fst (extract_text_with_gpt4_vision w f)))
    in truthy r1
       \<and> (contains ''unknown'' (lower (py_str r1))
          \<or> contains ''unidentified'' (lower (py_str r1)))
       \<and> r2 = PNone \<longrightarrow>
       fst (process_pdf w f) = Failed AttributeError
       \<and> (\<forall>d. Makedirs d \<notin> set (snd (process_pdf w f)))
       \<and> (\<forall>s d. Move s d \<notin> set (snd (process_pdf w f)))
       \<and> (endswith (lower name) ''.pdf'' \<and> worlds name = w
            \<and> f = os_path_join [INPUT_DIR] [name] \<longrightarrow>
          process_pdfs worlds (name # rest)
            = (name, Failed AttributeError, snd (process_pdf w f)) # process_pdfs worlds rest))"
proof -
  define r1 where "r1 = fst (get_llm_metadata (document_prompt w) (llm_service w 0)
                   (fst (extract_text_with_pypdf w f)))"
  define r2 where "r2 = fst (get_llm_metadata (document_prompt w) (llm_service w 1)
                   (fst (extract_text_with_gpt4_vision w f)))"
  have "fst (process_pdf w f) = Failed AttributeError
       \<and> (\<forall>d. Makedirs d \<notin> set (snd (process_pdf w f)))
       \<and> (\<forall>s d. Move s d \<notin> set (snd (process_pdf w f)))
       \<and> (endswith (lower name) ''.pdf'' \<and> worlds name = w
            \<and> f = os_path_join [INPUT_DIR] [name] \<longrightarrow>
          process_pdfs worlds (name # rest)
            = (name, Failed AttributeError, snd (process_pdf w f)) # process_pdfs worlds rest)"
    if t: "truthy r1"
      and g: "contains ''unknown'' (lower (py_str r1))
          \<or> contains ''unidentified'' (lower (py_str r1))"
      and n: "r2 = PNone"
  proof -
    from vision_effects_head [of w f] obtain vs
      where vs: "snd (extract_text_with_gpt4_vision w f) = VisionExtract f # vs"
        "\<forall>s d. Move s d \<notin> set vs" "\<forall>d. Makedirs d \<notin> set vs" by blast
    have u: "is_unreadable PNone = Inl AttributeError" by (simp add: is_unreadable_def)
    from process_pdf_retry [OF t g r1_def] n u
    have p: "process_pdf w f =
       (Failed AttributeError,
        snd (extract_text_with_pypdf w f)
        @ snd (get_llm_metadata (document_prompt w) (llm_service w 0)
                (fst (extract_text_with_pypdf w f)))
        @ snd (extract_text_with_gpt4_vision w f)
        @ snd (get_llm_metadata (document_prompt w) (llm_service w 1)
                (fst (extract_text_with_gpt4_vision w f))))"
      by (simp add: r2_def Let_def)
    have a: "fst (process_pdf w f) = Failed AttributeError" by (simp add: p)
    have b: "\<forall>d. Makedirs d \<notin> set (snd (process_pdf w f))"
      using vs by (simp add: p pypdf_effects llm_effects)
    have c: "\<forall>s d. Move s d \<notin> set (snd (process_pdf w f))"
      using vs by (simp add: p pypdf_effects llm_effects)
    have d: "process_pdfs worlds (name # rest)
            = (name, Failed AttributeError, snd (process_pdf w f)) # process_pdfs worlds rest"
      if "endswith (lower name) ''.pdf'' \<and> worlds name = w
            \<and> f = os_path_join [INPUT_DIR] [name]"
    proof -
      from that have "process_pdfs worlds (name # rest)
          = (name, process_pdf w f) # process_pdfs worlds rest" by simp
      moreover from a have "process_pdf w f = (Failed AttributeError, snd (process_pdf w f))"
        by (cases "process_pdf w f") simp
      ultimately show ?thesis by simp
    qed
    from a b c d show ?thesis by blast
  qed
  then show ?thesis unfolding Let_def r1_def r2_def by blast
qed

text \<open>
  C9.  A first result that is false in Python's sense, such as the empty object, ends
  \<open>process_pdf\<close> where an absent result does: after the extraction and the one
  request, with no retry and no filing, and with the same outcome as when the service
  fails.
\<close>

theorem falsy_result_like_absent:
  "(\<not> truthy (fst (get_llm_metadata (document_prompt w) (llm_service w 0)
                    (fst (extract_text_with_pypdf w f)))) \<longrightarrow>
      process_pdf w f
        = (SkippedLLMError,
           [NativeExtract f,
            ClassifyRequest (py_replace ''{PDF_TEXT}''
              (take 3000 (fst (extract_text_with_pypdf w f))) (document_prompt w))])
      \<and> process_pdf w f = process_pdf (w\<lparr>llm_service := \<lambda>n p. Fault\<rparr>) f)
   \<and> \<not> truthy (PDict [])"
proof (intro conjI impI)
  assume a: "\<not> truthy (fst (get_llm_metadata (document_prompt w) (llm_service w 0)
                    (fst (extract_text_with_pypdf w f))))"
  show p: "process_pdf w f
        = (SkippedLLMError,
           [NativeExtract f,
            ClassifyRequest (py_replace ''{PDF_TEXT}''
              (take 3000 (fst (extract_text_with_pypdf w f))) (document_prompt w))])"
    by (rule process_pdf_falsy [OF a])
  let ?w = "w\<lparr>llm_service := \<lambda>n p. Fault\<rparr>"
  have x: "extract_text_with_pypdf ?w f = extract_text_with_pypdf w f"
    by (simp add: extract_text_with_pypdf_def)
  have "\<not> truthy (fst (get_llm_metadata (document_prompt ?w) (llm_service ?w 0)
                    (fst (extract_text_with_pypdf ?w f))))"
    by (simp add: get_llm_metadata_def Let_def)
  from process_pdf_falsy [OF this] p x
  show "process_pdf w f = process_pdf ?w f" by simp
next
  show "\<not> truthy (PDict [])" by simp
qed

section \<open>The document handle of the image extractor\<close>

lemma handle_left_open_iff:
  "(PdfOpen p \<in> set (snd (extract_text_with_gpt4_vision w p))
      \<and> PdfClose p \<notin> set (snd (extract_text_with_gpt4_vision w p)))
   = (pdfium_open w p = None \<and> (\<exists>e. render_pages (pdfium_render w p) = Inl e))"
  by (auto simp: extract_text_with_gpt4_vision_def split: option.splits sum.splits)

text \<open>
  C7.  The handle is closed on every path but one: when rendering a page raises, the
  function returns with the document opened and not closed.  Here the second page of a
  document fails to render.
\<close>

theorem render_fault_leaves_handle_open:
  "extract_text_with_gpt4_vision
      (quiet_world\<lparr>pdfium_render := \<lambda>p. [Inr (1224, 1584), Inl OSError]\<rparr>) [''scan.pdf'']
     = ([], [VisionExtract [''scan.pdf''], PdfOpen [''scan.pdf'']])
   \<and> PdfClose [''scan.pdf'']
       \<notin> set (snd (extract_text_with_gpt4_vision
            (quiet_world\<lparr>pdfium_render := \<lambda>p. [Inr (1224, 1584), Inl OSError]\<rparr>)
            [''scan.pdf'']))"
  by (simp add: extract_text_with_gpt4_vision_def quiet_world_def)

section \<open>What the classification request carries\<close>

text \<open>
  C1.  \<open>process_pdf\<close> hands the extracted text to \<open>get_llm_metadata\<close> as it is:
  the Redactor is not called.  A page with a number of the shape of a social security
  number reaches the classification request unchanged, although the Redactor would have
  replaced it.
\<close>

theorem prompt_carries_unredacted_text:
  "snd (process_pdf
      (quiet_world\<lparr>document_prompt := ''Classify: {PDF_TEXT}'',
         pypdf_pages := \<lambda>p. Inr [Some ''SSN 123-45-6789''],
         llm_service := \<lambda>n p. Parsed (PDict [(''category'', PStr ''Invoice''),
           (''date'', PStr ''2023-04-01''), (''filename'', PStr ''invoice.pdf'')])\<rparr>)
      [''in.pdf''])
     = [NativeExtract [''in.pdf''], ClassifyRequest ''Classify: SSN 123-45-6789'',
        Makedirs [OUTPUT_DIR, ''2023'', ''2023 - Invoice''],
        Move [''in.pdf''] [OUTPUT_DIR, ''2023'', ''2023 - Invoice'', ''invoice.pdf'']]
   \<and> redact_sensitive_info ''SSN 123-45-6789'' = ''SSN [REDACTED SSN]''
   \<and> contains ''123-45-6789'' ''Classify: SSN 123-45-6789''"
  by code_simp

theorem second_classification_absent_fails_witness:
  "truthy (fst (get_llm_metadata
       (document_prompt (quiet_world\<lparr>llm_service := \<lambda>n p. if n = 0
          then Parsed (PDict [(''category'', PStr ''Invoice''), (''date'', PStr ''unknown''),
                              (''filename'', PStr ''invoice.pdf'')]) else Fault\<rparr>))
       (llm_service (quiet_world\<lparr>llm_service := \<lambda>n p. if n = 0
          then Parsed (PDict [(''category'', PStr ''Invoice''), (''date'', PStr ''unknown''),
                              (''filename'', PStr ''invoice.pdf'')]) else Fault\<rparr>) 0)
       (fst (extract_text_with_pypdf (quiet_world\<lparr>llm_service := \<lambda>n p. if n = 0
          then Parsed (PDict [(''category'', PStr ''Invoice''), (''date'', PStr ''unknown''),
                              (''filename'', PStr ''invoice.pdf'')]) else Fault\<rparr>)
          (os_path_join [INPUT_DIR] [''scan.pdf'']))))) 
   \<and> fst (process_pdf (quiet_world\<lparr>llm_service := \<lambda>n p. if n = 0
          then Parsed (PDict [(''category'', PStr ''Invoice''), (''date'', PStr ''unknown''),
                              (''filename'', PStr ''invoice.pdf'')]) else Fault\<rparr>)
        (os_path_join [INPUT_DIR] [''scan.pdf''])) = Failed AttributeError
   \<and> (\<forall>d. Makedirs d \<notin> set (snd (process_pdf (quiet_world\<lparr>llm_service := \<lambda>n p. if n = 0
          then Parsed (PDict [(''category'', PStr ''Invoice''), (''date'', PStr ''unknown''),
                              (''filename'', PStr ''invoice.pdf'')]) else Fault\<rparr>)
        (os_path_join [INPUT_DIR] [''scan.pdf'']))))
   \<and> (\<forall>s d. Move s d \<notin> set (snd (process_pdf (quiet_world\<lparr>llm_service := \<lambda>n p. if n = 0
          then Parsed (PDict [(''category'', PStr ''Invoice''), (''date'', PStr ''unknown''),
                              (''filename'', PStr ''invoice.pdf'')]) else Fault\<rparr>)
        (os_path_join [INPUT_DIR] [''scan.pdf'']))))
   \<and> process_pdfs (\<lambda>name. quiet_world\<lparr>llm_service := \<lambda>n p. if n = 0
          then Parsed (PDict [(''category'', PStr ''Invoice''), (''date'', PStr ''unknown''),
                              (''filename'', PStr ''invoice.pdf'')]) else Fault\<rparr>)
        [''scan.pdf'', ''next.pdf'']
      = (''scan.pdf'', Failed AttributeError,
         snd (process_pdf (quiet_world\<lparr>llm_service := \<lambda>n p. if n = 0
          then Parsed (PDict [(''category'', PStr ''Invoice''), (''date'', PStr ''unknown''),
                              (''filename'', PStr ''invoice.pdf'')]) else Fault\<rparr>)
           (os_path_join [INPUT_DIR] [''scan.pdf''])))
        # process_pdfs (\<lambda>name. quiet_world\<lparr>llm_service := \<lambda>n p. if n = 0
          then Parsed (PDict [(''category'', PStr ''Invoice''), (''date'', PStr ''unknown''),
                              (''filename'', PStr ''invoice.pdf'')]) else Fault\<rparr>)
            [''next.pdf'']"
proof -
  let ?w = "quiet_world\<lparr>llm_service := \<lambda>n p. if n = 0
          then Parsed (PDict [(''category'', PStr ''Invoice''), (''date'', PStr ''unknown''),
                              (''filename'', PStr ''invoice.pdf'')]) else Fault\<rparr>"
  let ?f = "os_path_join [INPUT_DIR] [''scan.pdf'']"
  let ?r1 = "fst (get_llm_metadata (document_prompt ?w) (llm_service ?w 0)
                   (fst (extract_text_with_pypdf ?w ?f)))"
  let ?r2 = "fst (get_llm_metadata (document_prompt ?w) (llm_service ?w 1)
                   (fst (extract_text_with_gpt4_vision ?w ?f)))"
  have h1: "truthy ?r1" by code_simp
  have h2: "contains ''unknown'' (lower (py_str ?r1))" by code_simp
  have h3: "?r2 = PNone" by code_simp
  have h4: "endswith (lower ''scan.pdf'') ''.pdf''" by code_simp
  from second_classification_absent_fails
    [where w = ?w and f = ?f and name = "''scan.pdf''" and worlds = "\<lambda>name. ?w"
       and rest = "[''next.pdf'']", unfolded Let_def]
    h1 h2 h3 h4
  show ?thesis by blast
qed

theorem falsy_result_like_absent_witness:
  "\<not> truthy (fst (get_llm_metadata
        (document_prompt (quiet_world\<lparr>llm_service := \<lambda>n p. Parsed (PDict [])\<rparr>))
        (llm_service (quiet_world\<lparr>llm_service := \<lambda>n p. Parsed (PDict [])\<rparr>) 0)
        (fst (extract_text_with_pypdf (quiet_world\<lparr>llm_service := \<lambda>n p. Parsed (PDict [])\<rparr>)
               [''empty.pdf'']))))
   \<and> process_pdf (quiet_world\<lparr>llm_service := \<lambda>n p. Parsed (PDict [])\<rparr>) [''empty.pdf'']
       = (SkippedLLMError, [NativeExtract [''empty.pdf''], ClassifyRequest []])
   \<and> process_pdf (quiet_world\<lparr>llm_service := \<lambda>n p. Parsed (PDict [])\<rparr>) [''empty.pdf'']
       = process_pdf (quiet_world\<lparr>llm_service := \<lambda>n p. Parsed (PDict []),
                                  llm_service := \<lambda>n p. Fault\<rparr>) [''empty.pdf'']"
proof -
  let ?w = "quiet_world\<lparr>llm_service := \<lambda>n p. Parsed (PDict [])\<rparr>"
  have h: "\<not> truthy (fst (get_llm_metadata (document_prompt ?w) (llm_service ?w 0)
        (fst (extract_text_with_pypdf ?w [''empty.pdf'']))))"
    by code_simp
  have p: "py_replace ''{PDF_TEXT}''
       (take 3000 (fst (extract_text_with_pypdf ?w [''empty.pdf'']))) (document_prompt ?w) = []"
    by code_simp
  from falsy_result_like_absent [where w = ?w and f = "[''empty.pdf'']"] h
  have "process_pdf ?w [''empty.pdf'']
        = (SkippedLLMError,
           [NativeExtract [''empty.pdf''],
            ClassifyRequest (py_replace ''{PDF_TEXT}''
              (take 3000 (fst (extract_text_with_pypdf ?w [''empty.pdf'']))) (document_prompt ?w))])"
    and e: "process_pdf ?w [''empty.pdf'']
        = process_pdf (?w\<lparr>llm_service := \<lambda>n p. Fault\<rparr>) [''empty.pdf'']"
    by blast+
  with p have "process_pdf ?w [''empty.pdf'']
       = (SkippedLLMError, [NativeExtract [''empty.pdf''], ClassifyRequest []])"
    by (simp only:)
  with h e show ?thesis by blast
qed

end
